theory Spec2Isabelle
  imports Complex_Main "HOL-Library.Char_ord" "HOL-Library.List_Lexorder"
begin

section \<open>Common data model\<close>

text \<open>
  The Python exceptions that the modelled functions of \<^verbatim>\<open>pelicun/model.py\<close> can raise.
  Every function that can raise returns \<open>error + 'a\<close>, with \<open>Inl\<close> for the exception.
  \<open>Outside_model\<close> is no exception: it marks the one place, in \<^verbatim>\<open>_perform_dmg_task\<close>, where
  the model does not follow the source any further.
\<close>

datatype error = KeyError | ValueError | TypeError | IndexError | NameError | Outside_model

subsection \<open>Tables of numbers\<close>

text \<open>
  A plain two-dimensional array (the \<^verbatim>\<open>.values\<close> of a DataFrame): a list of rows, one
  row per realization. Floating point numbers are modelled as reals.
\<close>

type_synonym 'a matrix = "'a list list"

definition mat_map :: "('a \<Rightarrow> 'b) \<Rightarrow> 'a matrix \<Rightarrow> 'b matrix" where
  "mat_map f A = map (map f) A"

definition mat_map2 :: "('a \<Rightarrow> 'b \<Rightarrow> 'c) \<Rightarrow> 'a matrix \<Rightarrow> 'b matrix \<Rightarrow> 'c matrix" where
  "mat_map2 f A B = map2 (map2 f) A B"

text \<open>\<^verbatim>\<open>R[mask] = V[mask]\<close>: the masked cells of \<open>R\<close> take the value of \<open>V\<close> at the same place.\<close>

definition assign_where :: "bool matrix \<Rightarrow> 'a matrix \<Rightarrow> 'a matrix \<Rightarrow> 'a matrix" where
  "assign_where M V R = mat_map2 (\<lambda>m (v, r). if m then v else r) M (mat_map2 Pair V R)"

text \<open>Two arrays have the same shape.\<close>

definition same_shape :: "'a matrix \<Rightarrow> 'b matrix \<Rightarrow> bool" where
  "same_shape A B = (map length A = map length B)"

text \<open>An array of the shape of \<open>A\<close> whose cell \<open>(i, j)\<close> is \<open>g i j\<close>.\<close>

definition mat_like :: "(nat \<Rightarrow> nat \<Rightarrow> 'b) \<Rightarrow> 'a matrix \<Rightarrow> 'b matrix" where
  "mat_like g A = map (\<lambda>i. map (g i) [0..<length (A ! i)]) [0..<length A]"

section \<open>DemandModel.estimate\_RID\<close>

text \<open>
  \<^verbatim>\<open>estimate_RID(self, demands, params, method='FEMA P58')\<close>, lines 232-283.
  \<open>params\<close> is the dictionary of parameters, \<open>eps i j\<close> is the value that
  \<^verbatim>\<open>np.random.normal(scale=0.2, size=RID.shape)\<close> draws for cell \<open>(i, j)\<close>.
  For another method the function returns \<^verbatim>\<open>None\<close>. The labels of the result
  (\<^verbatim>\<open>'RID'\<close> put in front of those of \<open>PID\<close>) are not modelled, only its values.
\<close>

definition estimate_RID ::
  "real matrix \<Rightarrow> (string \<rightharpoonup> real) \<Rightarrow> string \<Rightarrow> (nat \<Rightarrow> nat \<Rightarrow> real) \<Rightarrow> error + real matrix option" where
  "estimate_RID demands params method eps =
     (if method = ''FEMA P58'' then
        (let PID = demands in
         case params ''yield_drift'' of
           None \<Rightarrow> Inl KeyError
         | Some yield_drift \<Rightarrow>
            (let small = mat_map (\<lambda>p. p < yield_drift) PID;
                 medium = mat_map (\<lambda>p. p < 4 * yield_drift) PID;
                 large = mat_map (\<lambda>p. p \<ge> 4 * yield_drift) PID;
                 RID = PID;
                 RID = assign_where large (mat_map (\<lambda>p. p - 3 * yield_drift) PID) RID;
                 RID = assign_where medium (mat_map (\<lambda>p. 0.3 * (p - yield_drift)) PID) RID;
                 RID = assign_where small (mat_map (\<lambda>p. 0) PID) RID;
                 eps_sample = mat_like eps RID;
                 RID = assign_where (mat_map (\<lambda>r. r > 0) RID)
                         (mat_map2 (\<lambda>r e. exp (ln r + e)) RID eps_sample) RID
             in Inr (Some (mat_map2 min PID RID))))
      else Inr None)"

text \<open>
  Cell by cell, \<^verbatim>\<open>estimate_RID\<close> computes the following function of the yield drift, the
  noise drawn for the cell and the peak drift of the cell.
\<close>

definition RID_cell :: "real \<Rightarrow> real \<Rightarrow> real \<Rightarrow> real" where
  "RID_cell y e p =
     (let r = (if p < y then 0 else if p < 4 * y then 0.3 * (p - y) else p - 3 * y)
      in min p (if r > 0 then exp (ln r + e) else r))"

text \<open>Example inputs: a yield drift of 1 and a noise draw that is 0 everywhere.\<close>

definition unit_yield_params :: "string \<rightharpoonup> real" where
  "unit_yield_params = [''yield_drift'' \<mapsto> 1]"

definition no_noise :: "nat \<Rightarrow> nat \<Rightarrow> real" where
  "no_noise i j = 0"

section \<open>Median consequence functions\<close>

text \<open>
  \<^verbatim>\<open>prep_constant_median_DV(median)\<close>, lines 2726-2744: the returned function ignores the
  quantity.
\<close>

definition prep_constant_median_DV :: "real \<Rightarrow> 'q \<Rightarrow> real" where
  "prep_constant_median_DV median = (\<lambda>quantity. median)"

text \<open>
  \<^verbatim>\<open>numpy.interp(x, xp, fp)\<close> for one value \<open>x\<close>, as the numpy library documents and
  implements it: an exception when \<open>xp\<close> is empty or \<open>xp\<close> and \<open>fp\<close> differ in length;
  \<open>fp[0]\<close> left of the first point and \<open>fp[-1]\<close> right of the last point; otherwise,
  with \<open>j\<close> the segment that holds \<open>x\<close> (\<open>xp[j] \<le> x < xp[j+1]\<close>, found by binary search
  in the library, by a scan from the left here, which is the same segment when \<open>xp\<close> is
  increasing), the value \<open>fp[j]\<close> if \<open>x = xp[j]\<close> or \<open>j\<close> is the last point, and
  \<open>slope * (x - xp[j]) + fp[j]\<close> with \<open>slope = (fp[j+1] - fp[j]) / (xp[j+1] - xp[j])\<close>
  otherwise.
\<close>

fun interp_scan :: "real \<Rightarrow> (real \<times> real) list \<Rightarrow> real" where
  "interp_scan x [] = 0"
| "interp_scan x [(x0, y0)] = y0"
| "interp_scan x ((x0, y0) # (x1, y1) # ps) =
     (if x < x1 then (if x = x0 then y0 else (y1 - y0) / (x1 - x0) * (x - x0) + y0)
      else interp_scan x ((x1, y1) # ps))"

definition np_interp :: "real \<Rightarrow> real list \<Rightarrow> real list \<Rightarrow> error + real" where
  "np_interp x xp fp =
     (if xp = [] \<or> length xp \<noteq> length fp then Inl ValueError
      else if x < hd xp then Inr (hd fp)
      else if last xp < x then Inr (last fp)
      else Inr (interp_scan x (zip xp fp)))"

text \<open>
  \<^verbatim>\<open>prep_bounded_multilinear_median_DV(medians, quantities)\<close>, lines 2746-2784. The returned
  function raises ValueError for the quantity \<^verbatim>\<open>None\<close> and interpolates otherwise; on an
  array of quantities it works element by element.
\<close>

definition prep_bounded_multilinear_median_DV ::
  "real list \<Rightarrow> real list \<Rightarrow> real option \<Rightarrow> error + real" where
  "prep_bounded_multilinear_median_DV medians quantities =
     (\<lambda>quantity. case quantity of
         None \<Rightarrow> Inl ValueError
       | Some q \<Rightarrow> np_interp q quantities medians)"

text \<open>
  The claim's words: the piecewise-linear interpolation of the control points
  \<open>(qs ! i, ms ! i)\<close> at a quantity \<open>q\<close> that lies on segment \<open>i\<close>.
\<close>

definition segment_interpolation :: "real list \<Rightarrow> real list \<Rightarrow> nat \<Rightarrow> real \<Rightarrow> real" where
  "segment_interpolation qs ms i q =
     ms ! i + (ms ! Suc i - ms ! i) * (q - qs ! i) / (qs ! Suc i - qs ! i)"

text \<open>The control quantities are strictly increasing.\<close>

definition increasing :: "real list \<Rightarrow> bool" where
  "increasing qs = sorted_wrt (<) qs"

section \<open>Tables with labelled columns\<close>

text \<open>
  A pandas DataFrame whose columns carry a MultiIndex: the column labels are tuples of
  strings (one string per level), kept in column order, and the data is a list of rows,
  one per realization, each holding one value per column. A column with a plain string
  label is a column whose tuple has one level.
\<close>

type_synonym label = "string list"

record 'a frame =
  columns :: "label list"
  rows :: "'a list list"

text \<open>
  Every label has \<open>n\<close> levels and every row has one value per column.
\<close>

definition wf_frame :: "nat \<Rightarrow> 'a frame \<Rightarrow> bool" where
  "wf_frame n F = (list_all (\<lambda>k. length k = n) (columns F) \<and>
                   list_all (\<lambda>r. length r = length (columns F)) (rows F))"

text \<open>The values of a row in the columns whose label satisfies \<open>P\<close>, in column order.\<close>

definition row_select :: "(label \<Rightarrow> bool) \<Rightarrow> label list \<Rightarrow> 'a list \<Rightarrow> 'a list" where
  "row_select P ks row = map snd (filter (\<lambda>(k, v). P k) (zip ks row))"

text \<open>The projection of a label to the given levels (\<^verbatim>\<open>level=[...]\<close> of \<^verbatim>\<open>groupby\<close>).\<close>

definition project :: "nat list \<Rightarrow> label \<Rightarrow> label" where
  "project levels k = map ((!) k) levels"

text \<open>
  \<^verbatim>\<open>F.groupby(level=levels, axis=1).sum()\<close>: one column per distinct projection of the
  labels, the group labels sorted; each value is the sum of the row over the group.
\<close>

definition groupby_sum :: "nat list \<Rightarrow> real frame \<Rightarrow> real frame" where
  "groupby_sum levels F =
     (let groups = sort (remdups (map (project levels) (columns F)))
      in \<lparr>columns = groups,
          rows = map (\<lambda>row. map (\<lambda>g. sum_list (row_select (\<lambda>k. project levels k = g) (columns F) row))
                            groups) (rows F)\<rparr>)"

text \<open>
  \<^verbatim>\<open>F[c]\<close> on MultiIndex columns: the columns whose first level is \<open>c\<close>, that level
  dropped; KeyError when there is none.
\<close>

definition getitem0 :: "string \<Rightarrow> 'a frame \<Rightarrow> error + 'a frame" where
  "getitem0 c F =
     (if list_ex (\<lambda>k. hd k = c) (columns F)
      then Inr \<lparr>columns = map tl (filter (\<lambda>k. hd k = c) (columns F)),
                rows = map (row_select (\<lambda>k. hd k = c) (columns F)) (rows F)\<rparr>
      else Inl KeyError)"

text \<open>Python's \<^verbatim>\<open>s.split(c)\<close> for a separator of one character.\<close>

fun split_on :: "char \<Rightarrow> string \<Rightarrow> string list" where
  "split_on c [] = [[]]"
| "split_on c (x # xs) =
     (if x = c then [] # split_on c xs
      else (case split_on c xs of w # ws \<Rightarrow> (x # w) # ws | [] \<Rightarrow> [[x]]))"

text \<open>
  \<^verbatim>\<open>convert_to_MultiIndex(data, axis=1)\<close> of \<^verbatim>\<open>base.py\<close>, lines 775-848: columns that are
  a MultiIndex already are left alone; plain labels are split at the dashes and padded
  with empty strings to the same number of levels; the frame is returned unchanged when
  no label has a dash.
\<close>

definition convert_to_MultiIndex :: "'a frame \<Rightarrow> 'a frame" where
  "convert_to_MultiIndex data =
     (if list_ex (\<lambda>k. length k \<noteq> 1) (columns data) then data
      else
        (let index_labels = map (\<lambda>k. split_on CHR ''-'' (hd k)) (columns data);
             max_lbl_len = fold max (map length index_labels) 0;
             index_labels = map (\<lambda>labels. labels @ replicate (max_lbl_len - length labels) [])
                                index_labels
         in if max_lbl_len > 1 then data\<lparr>columns := index_labels\<rparr> else data))"

section \<open>BldgRepairModel.aggregate\_losses\<close>

text \<open>
  \<^verbatim>\<open>aggregate_losses(self)\<close>, lines 2496-2530, as a function of the consequence sample
  \<^verbatim>\<open>self.sample\<close>, whose columns have the levels (dv, loss, dmg, ds, loc, dir). Grouping
  by levels 0 and 4 needs a fifth level (IndexError otherwise); \<^verbatim>\<open>DVG['COST']\<close> and
  \<^verbatim>\<open>DVG['TIME']\<close> raise KeyError when the sample has no such column.
\<close>

definition aggregate_losses :: "real frame \<Rightarrow> error + real frame" where
  "aggregate_losses DV =
     (if list_ex (\<lambda>k. length k < 5) (columns DV) then Inl IndexError
      else
        (let DVG = groupby_sum [0, 4] DV in
         case getitem0 ''COST'' DVG of
           Inl e \<Rightarrow> Inl e
         | Inr cost \<Rightarrow>
            (case getitem0 ''TIME'' DVG of
               Inl e \<Rightarrow> Inl e
             | Inr time \<Rightarrow>
                 Inr (convert_to_MultiIndex
                       \<lparr>columns = [[''repair_cost''], [''repair_time-parallel''],
                                   [''repair_time-sequential'']],
                        rows = map2 (\<lambda>c t. [sum_list c, Max (set t), sum_list t])
                                 (rows cost) (rows time)\<rparr>))))"

text \<open>
  The claim's words: the repair-time (or cost) total of one location in one realization,
  and the locations that carry a consequence of the given type.
\<close>

definition location_total :: "string \<Rightarrow> string \<Rightarrow> label list \<Rightarrow> real list \<Rightarrow> real" where
  "location_total dv loc ks row = sum_list (row_select (\<lambda>k. hd k = dv \<and> k ! 4 = loc) ks row)"

definition locations_of :: "string \<Rightarrow> label list \<Rightarrow> string list" where
  "locations_of dv ks = remdups (map (\<lambda>k. k ! 4) (filter (\<lambda>k. hd k = dv) ks))"

section \<open>The replacement override of BldgRepairModel.\_generate\_DV\_sample\<close>

text \<open>
  \<^verbatim>\<open>F[k]\<close> for a full label \<open>k\<close>: the column of that label as a list of values, KeyError
  when the label is not a column.
\<close>

definition getcol :: "label \<Rightarrow> 'a frame \<Rightarrow> error + 'a list" where
  "getcol k F =
     (case those (map (\<lambda>row. map_of (zip (columns F) row) k) (rows F)) of
        Some c \<Rightarrow> if k \<in> set (columns F) then Inr c else Inl KeyError
      | None \<Rightarrow> Inl KeyError)"

text \<open>
  \<^verbatim>\<open>F.loc[mask, cols] = v\<close>: in the rows that the mask selects, the columns whose label
  satisfies \<open>P\<close> take the value \<open>v\<close>.
\<close>

definition loc_assign :: "bool list \<Rightarrow> (label \<Rightarrow> bool) \<Rightarrow> 'a \<Rightarrow> 'a frame \<Rightarrow> 'a frame" where
  "loc_assign msk P v F =
     F\<lparr>rows := map2 (\<lambda>m row. if m then map2 (\<lambda>k x. if P k then v else x) (columns F) row else row)
                  msk (rows F)\<rparr>"

text \<open>
  Lines 2702-2720 of \<^verbatim>\<open>_generate_DV_sample\<close>, as a function of the sample \<^verbatim>\<open>DV_sample\<close>
  that lines 2696-2700 have built (six levels: dv, loss, dmg, ds, loc, dir, no missing
  values): the result is what the method stores in \<^verbatim>\<open>self._sample\<close>.
\<close>

definition replacement_override :: "real frame \<Rightarrow> error + real frame" where
  "replacement_override DV_sample =
     (if list_ex (\<lambda>k. length k < 5) (columns DV_sample) then Inl IndexError
      else
        (let DV_sum = groupby_sum [1] DV_sample;
             locs = remdups (map (\<lambda>k. k ! 4) (columns DV_sample));
             locs = filter (\<lambda>l. l \<noteq> ''0'') locs
         in if [''replacement''] \<in> set (columns DV_sum)
            then (case getcol [''replacement''] DV_sum of
                    Inl e \<Rightarrow> Inl e
                  | Inr s \<Rightarrow>
                     (let id_replacement = map (\<lambda>x. x > 0) s
                      in Inr (loc_assign id_replacement (\<lambda>k. k ! 4 \<in> set locs) 0 DV_sample)))
            else Inr DV_sample))"

text \<open>An example consequence sample with two realizations.\<close>

definition example_DV_sample :: "real frame" where
  "example_DV_sample =
     \<lparr>columns = [[''COST'', ''replacement'', ''collapse'', ''1'', ''0'', ''1''],
                 [''COST'', ''B.10'', ''B.10'', ''1'', ''1'', ''1''],
                 [''COST'', ''B.10'', ''B.10'', ''1'', ''2'', ''1''],
                 [''TIME'', ''replacement'', ''collapse'', ''1'', ''0'', ''1''],
                 [''TIME'', ''B.10'', ''B.10'', ''1'', ''1'', ''1''],
                 [''TIME'', ''B.10'', ''B.10'', ''1'', ''2'', ''1'']],
      rows = [[0, 3, 4, 0, 5, 6],
              [100, 3, 4, 50, 5, 6]]\<rparr>"

section \<open>Strings and integers\<close>

text \<open>
  \<^verbatim>\<open>str(n)\<close> for an integer: its decimal digits, with a minus sign when negative.
\<close>

definition digit_char :: "nat \<Rightarrow> char" where
  "digit_char d = ''0123456789'' ! d"

fun str_nat :: "nat \<Rightarrow> string" where
  "str_nat n = (if n < 10 then [digit_char n] else str_nat (n div 10) @ [digit_char (n mod 10)])"

declare str_nat.simps [simp del]

definition py_str :: "int \<Rightarrow> string" where
  "py_str i = (if i < 0 then CHR ''-'' # str_nat (nat (- i)) else str_nat (nat i))"

text \<open>
  \<^verbatim>\<open>int(s)\<close> for a string: an optional sign followed by one or more decimal digits;
  ValueError otherwise. (Python also accepts blanks around the number and underscores
  between digits; the location labels that reach this function are decimal numerals.)
\<close>

definition is_digit :: "char \<Rightarrow> bool" where
  "is_digit c = (CHR ''0'' \<le> c \<and> c \<le> CHR ''9'')"

definition digit_val :: "char \<Rightarrow> nat" where
  "digit_val c = of_char c - 48"

definition nat_of_digits :: "string \<Rightarrow> nat" where
  "nat_of_digits ds = foldl (\<lambda>a c. 10 * a + digit_val c) 0 ds"

definition py_int :: "string \<Rightarrow> error + int" where
  "py_int s =
     (let (neg, ds) = (if s \<noteq> [] \<and> hd s = CHR ''-'' then (True, tl s)
                       else if s \<noteq> [] \<and> hd s = CHR ''+'' then (False, tl s)
                       else (False, s))
      in if ds \<noteq> [] \<and> list_all is_digit ds
         then Inr (if neg then - int (nat_of_digits ds) else int (nat_of_digits ds))
         else Inl ValueError)"

section \<open>DamageModel: the demand that a performance group needs\<close>

text \<open>
  The analysis options of \<^verbatim>\<open>base.py\<close> that the damage model reads: the global demand
  offsets by demand type and the multipliers for non-directional demands.
\<close>

record options =
  demand_offset :: "(string \<times> int) list"
  nondir_multi_dict :: "(string \<times> real) list"

text \<open>
  Modelled from the spec: \<^verbatim>\<open>Options.nondir_multi\<close>, which \<^verbatim>\<open>model.py\<close> calls, and the default
  configuration file are not among the sources. The spec gives a configurable multiplier
  with default 1.2; the documentation of \<^verbatim>\<open>nondir_multi_dict\<close> in \<^verbatim>\<open>base.py\<close> says that the
  multiplier is set for \<^verbatim>\<open>'ALL'\<close> demand types or for specific ones. A demand type with no
  entry and no \<^verbatim>\<open>'ALL'\<close> entry is an error.
\<close>

definition nondir_multi :: "options \<Rightarrow> string \<Rightarrow> error + real" where
  "nondir_multi opts EDP_type =
     (case map_of (nondir_multi_dict opts) EDP_type of
        Some m \<Rightarrow> Inr m
      | None \<Rightarrow> (case map_of (nondir_multi_dict opts) ''ALL'' of
                   Some m \<Rightarrow> Inr m
                 | None \<Rightarrow> Inl ValueError))"

definition default_options :: options where
  "default_options = \<lparr>demand_offset = [], nondir_multi_dict = [(''ALL'', 12 / 10)]\<rparr>"

text \<open>The table \<^verbatim>\<open>EDP_to_demand_type\<close> of \<^verbatim>\<open>base.py\<close>, lines 1255-1290.\<close>

definition EDP_to_demand_type :: "(string \<times> string) list" where
  "EDP_to_demand_type =
     [(''Story Drift Ratio'', ''PID''),
      (''Peak Interstory Drift Ratio'', ''PID''),
      (''Roof Drift Ratio'', ''PRD''),
      (''Peak Roof Drift Ratio'', ''PRD''),
      (''Damageable Wall Drift'', ''DWD''),
      (''Racking Drift Ratio'', ''RDR''),
      (''Mega Drift Ratio'', ''PMD''),
      (''Residual Drift Ratio'', ''RID''),
      (''Residual Interstory Drift Ratio'', ''RID''),
      (''Peak Effective Drift Ratio'', ''EDR''),
      (''Peak Floor Acceleration'', ''PFA''),
      (''Peak Floor Velocity'', ''PFV''),
      (''Peak Floor Displacement'', ''PFD''),
      (''Peak Link Rotation Angle'', ''LR''),
      (''Peak Link Beam Chord Rotation'', ''LBR''),
      (''Peak Gust Wind Speed'', ''PWS''),
      (''Peak Inundation Height'', ''PIH''),
      (''Peak Ground Acceleration'', ''PGA''),
      (''Peak Ground Velocity'', ''PGV''),
      (''Spectral Acceleration'', ''SA''),
      (''Spectral Velocity'', ''SV''),
      (''Spectral Displacement'', ''SD''),
      (''Peak Spectral Acceleration'', ''SA''),
      (''Peak Spectral Velocity'', ''SV''),
      (''Peak Spectral Displacement'', ''SD''),
      (''Permanent Ground Deformation'', ''PGD''),
      (''One'', ''ONE'')]"

text \<open>
  The three demand parameters of a component in the damage model table \<^verbatim>\<open>damage_params\<close>:
  columns \<^verbatim>\<open>('Demand','Directional')\<close>, \<^verbatim>\<open>('Demand','Offset')\<close> and \<^verbatim>\<open>('Demand','Type')\<close>.
  The offset is a whole number.
\<close>

record demand_params =
  Directional :: bool
  Offset :: int
  Type :: string

text \<open>
  Lines 1550-1559 of \<^verbatim>\<open>get_required_demand_type\<close>: the demand type and the EDP type of
  a \<^verbatim>\<open>Type\<close> entry, which may carry a subtype after a bar.
\<close>

definition parse_demand_type :: "string \<Rightarrow> error + string \<times> string" where
  "parse_demand_type demand_type =
     (if CHR ''|'' \<in> set demand_type then
        (case split_on CHR ''|'' demand_type of
           [demand_type, subtype] \<Rightarrow>
             (case map_of EDP_to_demand_type demand_type of
                None \<Rightarrow> Inl KeyError
              | Some demand_type \<Rightarrow> Inr (demand_type, demand_type @ ''_'' @ subtype))
         | _ \<Rightarrow> Inl ValueError)
      else
        (case map_of EDP_to_demand_type demand_type of
           None \<Rightarrow> Inl KeyError
         | Some demand_type \<Rightarrow> Inr (demand_type, demand_type)))"

text \<open>
  \<^verbatim>\<open>get_required_demand_type(self, PG)\<close>, lines 1529-1576. \<open>DP\<close> is the damage model table
  restricted to the three demand parameters, \<open>PG\<close> the label (component, location,
  direction) of the performance group. The result is \<^verbatim>\<open>EDP_req\<close>.
\<close>

definition get_required_demand_type ::
  "(string \<rightharpoonup> demand_params) \<Rightarrow> options \<Rightarrow> label \<Rightarrow> error + label" where
  "get_required_demand_type DP opts PG =
     (case PG of
        [cmp, loc, dir] \<Rightarrow>
          (case DP cmp of
             None \<Rightarrow> Inl KeyError
           | Some p \<Rightarrow>
              (case parse_demand_type (Type p) of
                 Inl e \<Rightarrow> Inl e
               | Inr (demand_type, EDP_type) \<Rightarrow>
                  (let offset = (case map_of (demand_offset opts) demand_type of
                                   Some global_offset \<Rightarrow> Offset p + global_offset
                                 | None \<Rightarrow> Offset p);
                       dir = (if Directional p then dir else ''0'')
                   in case py_int loc of
                        Inl e \<Rightarrow> Inl e
                      | Inr l \<Rightarrow> Inr [EDP_type, py_str (l + offset), dir])))
      | _ \<Rightarrow> Inl IndexError)"

text \<open>The messages that the damage calculation writes to the log.\<close>

datatype log_msg = WARNING_Cannot_find_demand_data label

text \<open>
  \<^verbatim>\<open>_assemble_required_demand_data(self, EDP_req)\<close>, lines 1578-1609. \<open>demand_source\<close> is the
  demand sample, with column levels (type, location, direction). The result is the list
  of messages logged and the demand vector, \<^verbatim>\<open>None\<close> when the non-directional lookup
  fails: the \<^verbatim>\<open>try\<close> block turns every exception of the lookup, of the maximum and of the
  multiplier into \<^verbatim>\<open>None\<close>. The directional lookup is not in a \<^verbatim>\<open>try\<close> block.
\<close>

definition nondirectional_demand :: "real frame \<Rightarrow> options \<Rightarrow> label \<Rightarrow> error + real list" where
  "nondirectional_demand demand_source opts EDP_req =
     (if list_ex (\<lambda>k. k ! 0 = EDP_req ! 0 \<and> k ! 1 = EDP_req ! 1) (columns demand_source)
      then (let demand = map (\<lambda>row. Max (set (row_select (\<lambda>k. k ! 0 = EDP_req ! 0 \<and> k ! 1 = EDP_req ! 1)
                                              (columns demand_source) row)))
                           (rows demand_source)
            in case nondir_multi opts (EDP_req ! 0) of
                 Inl e \<Rightarrow> Inl e
               | Inr m \<Rightarrow> Inr (map (\<lambda>d. d * m) demand))
      else Inl KeyError)"

definition assemble_required_demand_data ::
  "real frame \<Rightarrow> options \<Rightarrow> label \<Rightarrow> log_msg list \<times> (error + real list option)" where
  "assemble_required_demand_data demand_source opts EDP_req =
     (if EDP_req ! 2 = ''0'' then
        (case nondirectional_demand demand_source opts EDP_req of
           Inr demand \<Rightarrow> ([], Inr (Some demand))
         | Inl e \<Rightarrow> ([WARNING_Cannot_find_demand_data EDP_req], Inr None))
      else
        (case getcol [EDP_req ! 0, EDP_req ! 1, EDP_req ! 2] demand_source of
           Inr demand \<Rightarrow> ([], Inr (Some demand))
         | Inl e \<Rightarrow> ([], Inl e)))"

text \<open>
  The claim's words: the optional global offset of a demand type (none counts as 0), and
  the largest of the demands of one row over all directions at a demand type and location.
\<close>

definition global_offset :: "options \<Rightarrow> string \<Rightarrow> int" where
  "global_offset opts demand_type =
     (case map_of (demand_offset opts) demand_type of Some g \<Rightarrow> g | None \<Rightarrow> 0)"

definition max_over_directions :: "string \<Rightarrow> string \<Rightarrow> label list \<Rightarrow> real list \<Rightarrow> real" where
  "max_over_directions EDP_type location ks row =
     Max (set (row_select (\<lambda>k. k ! 0 = EDP_type \<and> k ! 1 = location) ks row))"

text \<open>Example inputs: a non-directional component, options, and a demand sample.\<close>

definition example_DP :: "string \<rightharpoonup> demand_params" where
  "example_DP = [''B.10'' \<mapsto> \<lparr>Directional = False, Offset = 1, Type = ''Peak Floor Acceleration''\<rparr>,
                 ''C.20'' \<mapsto> \<lparr>Directional = True, Offset = 0, Type = ''Peak Interstory Drift Ratio''\<rparr>]"

definition example_options :: options where
  "example_options = default_options\<lparr>demand_offset := [(''PFA'', 1)]\<rparr>"

definition example_demand :: "real frame" where
  "example_demand =
     \<lparr>columns = [[''PFA'', ''5'', ''1''], [''PFA'', ''5'', ''2''], [''PFA'', ''4'', ''1'']],
      rows = [[4 / 10, 5 / 10, 9 / 10], [2, 1, 3]]\<rparr>"

section \<open>DamageModel: damage states of the blocks\<close>

text \<open>
  \<^verbatim>\<open>F.sort_index(axis=1)\<close>: the columns in increasing order of their labels, which compare
  as Python compares strings, character by character.
\<close>

definition sort_index_columns :: "'a frame \<Rightarrow> 'a frame" where
  "sort_index_columns F =
     (let order = sort_key (\<lambda>i. columns F ! i) [0..<length (columns F)]
      in \<lparr>columns = map ((!) (columns F)) order,
          rows = map (\<lambda>row. map ((!) row) order) (rows F)\<rparr>)"

text \<open>
  \<^verbatim>\<open>_generate_dmg_sample(self, sample_size, PG)\<close>, lines 1496-1527, as a function of the
  samples that the two registries of \<^verbatim>\<open>_create_dmg_RVs\<close> have drawn (\<^verbatim>\<open>RV_sample\<close>, one
  column per random variable, labelled by its name, in the order of registration; the
  LS-to-DS sample already as integers). \<open>DP\<close> is \<^verbatim>\<open>None\<close> when no damage model is loaded.
\<close>

definition generate_dmg_sample ::
  "'p option \<Rightarrow> real frame \<Rightarrow> int frame \<Rightarrow> error + real frame \<times> int frame" where
  "generate_dmg_sample DP capacity_RV_sample lsds_RV_sample =
     (case DP of
        None \<Rightarrow> Inl ValueError
      | Some _ \<Rightarrow>
         (case getitem0 ''FRG'' (convert_to_MultiIndex (sort_index_columns capacity_RV_sample)) of
            Inl e \<Rightarrow> Inl e
          | Inr capacity_sample \<Rightarrow>
             (case getitem0 ''LSDS'' (convert_to_MultiIndex (sort_index_columns lsds_RV_sample)) of
                Inl e \<Rightarrow> Inl e
              | Inr lsds_sample \<Rightarrow> Inr (capacity_sample, lsds_sample))))"

text \<open>
  \<^verbatim>\<open>F.loc[:, labels]\<close>: the columns of the given labels, in the given order; KeyError when a
  label is not a column of \<open>F\<close>.
\<close>

definition loc_columns :: "label list \<Rightarrow> 'a frame \<Rightarrow> error + 'a frame" where
  "loc_columns ls F =
     (case those (map (\<lambda>row. those (map (map_of (zip (columns F) row)) ls)) (rows F)) of
        Some rs \<Rightarrow> if list_all (\<lambda>l. l \<in> set (columns F)) ls
                   then Inr \<lparr>columns = ls, rows = rs\<rparr> else Inl KeyError
      | None \<Rightarrow> Inl KeyError)"

text \<open>\<^verbatim>\<open>columns.droplevel(4)\<close>.\<close>

definition droplevel4 :: "label \<Rightarrow> label" where
  "droplevel4 k = take 4 k @ drop 5 k"

text \<open>
  \<^verbatim>\<open>ds.loc[:, cols] = ds.loc[:, cols].mask(cond, other)\<close>, lines 1670-1671: in each row, a
  column of \<open>ds\<close> whose label is the \<open>i\<close>-th of \<open>cols\<close> takes the \<open>i\<close>-th value of
  \<open>other\<close> when the \<open>i\<close>-th value of \<open>cond\<close> is true, and keeps its value otherwise.
\<close>

definition mask_assign :: "label list \<Rightarrow> bool list list \<Rightarrow> 'a list list \<Rightarrow> 'a frame \<Rightarrow> 'a frame" where
  "mask_assign cols cond other ds =
     ds\<lparr>rows := map2 (\<lambda>(c, ot) row.
                       map2 (\<lambda>k old. case map_of (zip cols (zip c ot)) k of
                                         Some (True, v) \<Rightarrow> v
                                       | _ \<Rightarrow> old)
                            (columns ds) row)
                  (zip cond other) (rows ds)\<rparr>"

text \<open>The loop over the limit states of \<^verbatim>\<open>_evaluate_damage_state\<close>, lines 1645-1671.\<close>

fun evaluate_limit_states ::
  "bool frame \<Rightarrow> int frame \<Rightarrow> string list \<Rightarrow> int frame \<Rightarrow> error + int frame" where
  "evaluate_limit_states dmg_eval lsds_sample [] ds_sample = Inr ds_sample"
| "evaluate_limit_states dmg_eval lsds_sample (LS_id # ls_list) ds_sample =
     (let cols = filter (\<lambda>k. k ! 4 = LS_id) (columns dmg_eval);
          dmg_e_ls = map (row_select (\<lambda>k. k ! 4 = LS_id) (columns dmg_eval)) (rows dmg_eval)
      in case loc_columns cols lsds_sample of
           Inl e \<Rightarrow> Inl e
         | Inr lsds \<Rightarrow>
             evaluate_limit_states dmg_eval lsds_sample ls_list
               (mask_assign (map droplevel4 cols) dmg_e_ls (rows lsds) ds_sample))"

text \<open>
  \<^verbatim>\<open>_evaluate_damage_state(self, demand, capacity_sample, lsds_sample)\<close>, lines 1611-1677.
  The capacity sample has the column levels (component, location, direction, block,
  limit state). The demand is \<^verbatim>\<open>None\<close> or one value per realization; subtracting \<^verbatim>\<open>None\<close>
  from the capacities raises TypeError, a demand vector of another length ValueError.
  The limit states are visited in the order in which their ids first appear among the
  columns of the capacity sample.
\<close>

definition evaluate_damage_state ::
  "real list option \<Rightarrow> real frame \<Rightarrow> int frame \<Rightarrow> error + int frame" where
  "evaluate_damage_state demand capacity_sample lsds_sample =
     (case demand of
        None \<Rightarrow> Inl TypeError
      | Some demand \<Rightarrow>
          if length demand \<noteq> length (rows capacity_sample) then Inl ValueError
          else if list_ex (\<lambda>k. length k < 5) (columns capacity_sample) then Inl IndexError
          else
            (let dmg_eval = \<lparr>columns = columns capacity_sample,
                             rows = map2 (\<lambda>d row. map (\<lambda>c. c - d < 0) row)
                                      demand (rows capacity_sample)\<rparr>;
                 blocks = sort (remdups (map (project [0, 1, 2, 3]) (columns capacity_sample)));
                 ds_sample = \<lparr>columns = blocks,
                              rows = map (\<lambda>row. map (\<lambda>b. 0) blocks) (rows capacity_sample)\<rparr>;
                 ls_list = remdups (map (\<lambda>k. k ! 4) (columns dmg_eval))
             in evaluate_limit_states dmg_eval lsds_sample ls_list ds_sample))"

text \<open>
  The damage states of the blocks of one performance group, as lines 1998-2007 of
  \<^verbatim>\<open>calculate\<close> obtain them from the drawn samples and the demand.
\<close>

definition damage_states ::
  "real list option \<Rightarrow> real frame \<Rightarrow> int frame \<Rightarrow> error + int frame" where
  "damage_states demand capacity_RV_sample lsds_RV_sample =
     (case generate_dmg_sample (Some ()) capacity_RV_sample lsds_RV_sample of
        Inl e \<Rightarrow> Inl e
      | Inr (capacity_sample, lsds_sample) \<Rightarrow>
          evaluate_damage_state demand capacity_sample lsds_sample)"

text \<open>
  Example: one block of component A at location 1, direction 1, with ten limit states
  whose capacities are 1, 2, ..., 10 in the one realization, and whose limit state
  \<open>i\<close> leads to damage state \<open>i\<close>. The columns are in the order in which
  \<^verbatim>\<open>_create_dmg_RVs\<close> registers the random variables.
\<close>

definition ten_ls_capacity :: "real frame" where
  "ten_ls_capacity =
     \<lparr>columns = [[''FRG-A-1-1-1-1''], [''FRG-A-1-1-1-2''], [''FRG-A-1-1-1-3''],
                 [''FRG-A-1-1-1-4''], [''FRG-A-1-1-1-5''], [''FRG-A-1-1-1-6''],
                 [''FRG-A-1-1-1-7''], [''FRG-A-1-1-1-8''], [''FRG-A-1-1-1-9''],
                 [''FRG-A-1-1-1-10'']],
      rows = [[1, 2, 3, 4, 5, 6, 7, 8, 9, 10]]\<rparr>"

definition ten_ls_lsds :: "int frame" where
  "ten_ls_lsds =
     \<lparr>columns = [[''LSDS-A-1-1-1-1''], [''LSDS-A-1-1-1-2''], [''LSDS-A-1-1-1-3''],
                 [''LSDS-A-1-1-1-4''], [''LSDS-A-1-1-1-5''], [''LSDS-A-1-1-1-6''],
                 [''LSDS-A-1-1-1-7''], [''LSDS-A-1-1-1-8''], [''LSDS-A-1-1-1-9''],
                 [''LSDS-A-1-1-1-10'']],
      rows = [[1, 2, 3, 4, 5, 6, 7, 8, 9, 10]]\<rparr>"

text \<open>The same block with the first three limit states only.\<close>

definition three_ls_capacity :: "real frame" where
  "three_ls_capacity =
     \<lparr>columns = [[''FRG-A-1-1-1-1''], [''FRG-A-1-1-1-2''], [''FRG-A-1-1-1-3'']],
      rows = [[1, 2, 3], [1, 5, 3], [7, 8, 9]]\<rparr>"

definition three_ls_lsds :: "int frame" where
  "three_ls_lsds =
     \<lparr>columns = [[''LSDS-A-1-1-1-1''], [''LSDS-A-1-1-1-2''], [''LSDS-A-1-1-1-3'']],
      rows = [[1, 2, 3], [1, 2, 4], [1, 2, 3]]\<rparr>"

section \<open>DamageModel.calculate: the loop over the performance groups\<close>

text \<open>
  \<^verbatim>\<open>F.loc[:, PG]\<close> for a label \<open>PG\<close> that is a proper prefix of the column labels: the
  columns that start with \<open>PG\<close>, those levels dropped; KeyError when there is none.
\<close>

definition loc_prefix :: "label \<Rightarrow> 'a frame \<Rightarrow> error + 'a frame" where
  "loc_prefix p F =
     (if list_ex (\<lambda>k. take (length p) k = p) (columns F)
      then Inr \<lparr>columns = map (drop (length p)) (filter (\<lambda>k. take (length p) k = p) (columns F)),
                rows = map (row_select (\<lambda>k. take (length p) k = p) (columns F)) (rows F)\<rparr>
      else Inl KeyError)"

text \<open>
  \<^verbatim>\<open>F.loc[:, l] = vals\<close> for one label: the column is overwritten when it exists and
  appended when it does not.
\<close>

definition set_column :: "label \<Rightarrow> 'a list \<Rightarrow> 'a frame \<Rightarrow> 'a frame" where
  "set_column l vals F =
     (if l \<in> set (columns F)
      then F\<lparr>rows := map2 (\<lambda>v row. map2 (\<lambda>k x. if k = l then v else x) (columns F) row)
                        vals (rows F)\<rparr>
      else \<lparr>columns = columns F @ [l], rows = map2 (\<lambda>v row. row @ [v]) vals (rows F)\<rparr>)"

text \<open>
  \<^verbatim>\<open>prepare_dmg_quantities(self, PG, ds_sample, dropzero=False, dropempty=False)\<close>, lines
  1679-1742, as \<^verbatim>\<open>calculate\<close> calls it. \<open>cmp_sample\<close> is the component quantity sample of
  the asset model, \<open>blocks\<close> the weights of the blocks of the group as lines 1705-1713
  obtain them from the asset model. The result has one column per damage state that
  occurs in the sample of the group, labelled by the damage state, holding for each
  realization the sum of the quantities of the blocks in that damage state. When the
  sample is empty, \<^verbatim>\<open>res\<close> is never bound and the \<^verbatim>\<open>return\<close> fails.
\<close>

definition prepare_dmg_quantities ::
  "label \<Rightarrow> real frame \<Rightarrow> real list \<Rightarrow> int frame \<Rightarrow> error + real frame" where
  "prepare_dmg_quantities PG cmp_sample blocks ds_sample =
     (case loc_prefix PG ds_sample of
        Inl e \<Rightarrow> Inl e
      | Inr dmg_ds \<Rightarrow>
         (case getcol PG cmp_sample of
            Inl e \<Rightarrow> Inl e
          | Inr cmp_qnt \<Rightarrow>
             (let dmg_qnt = \<lparr>columns = columns dmg_ds, rows = map (map (\<lambda>d. 0)) (rows dmg_ds)\<rparr>;
                  dmg_qnt = fold (\<lambda>(block_i, w_block).
                                    set_column [py_str (int block_i + 1)]
                                      (map (\<lambda>q. q * w_block) cmp_qnt))
                                 (enumerate 0 blocks) dmg_qnt;
                  ds_list = sort (remdups (concat (rows dmg_ds)))
              in if ds_list = [] then Inl NameError
                 else Inr \<lparr>columns = map (\<lambda>ds_i. [py_str ds_i]) ds_list,
                           rows = map2 (\<lambda>dsrow qrow.
                                     map (\<lambda>ds_i. sum_list
                                            (map (\<lambda>(k, d). case map_of (zip (columns dmg_qnt) qrow) k of
                                                               Some q \<Rightarrow> q | None \<Rightarrow> 0)
                                                 (filter (\<lambda>(k, d). d = ds_i)
                                                         (zip (columns dmg_ds) dsrow))))
                                         ds_list)
                                   (rows dmg_ds) (rows dmg_qnt)\<rparr>)))"

text \<open>
  What the damage calculation reads from its assessment: the demand parameters of the
  damage model table (\<^verbatim>\<open>None\<close> when no damage model is loaded), the options, the demand
  sample, the component quantity sample, the block weights of each performance group, and
  for each performance group the samples that its two registries draw.
\<close>

record damage_model =
  damage_params :: "(string \<rightharpoonup> demand_params) option"
  model_options :: options
  demand_sample :: "real frame"
  cmp_sample :: "real frame"
  cmp_blocks :: "label \<Rightarrow> real list"
  capacity_RV_sample :: "label \<Rightarrow> real frame"
  lsds_RV_sample :: "label \<Rightarrow> int frame"

text \<open>
  The body of the loop of \<^verbatim>\<open>calculate\<close>, lines 1992-2012, for the performance groups in
  the given order. The result is the list of messages logged and either the exception
  that ended the loop or the quantity samples of all performance groups.
\<close>

fun calculate_PGs ::
  "damage_model \<Rightarrow> label list \<Rightarrow> log_msg list \<times> (error + real frame list)" where
  "calculate_PGs M [] = ([], Inr [])"
| "calculate_PGs M (PG_i # PGs) =
     (case generate_dmg_sample (damage_params M) (capacity_RV_sample M PG_i) (lsds_RV_sample M PG_i) of
        Inl e \<Rightarrow> ([], Inl e)
      | Inr (capacity_sample, lsds_sample) \<Rightarrow>
         (case damage_params M of
            None \<Rightarrow> ([], Inl TypeError)
          | Some DP \<Rightarrow>
         (case get_required_demand_type DP (model_options M) PG_i of
            Inl e \<Rightarrow> ([], Inl e)
          | Inr EDP_req \<Rightarrow>
             (case assemble_required_demand_data (demand_sample M) (model_options M) EDP_req of
                (lg, Inl e) \<Rightarrow> (lg, Inl e)
              | (lg, Inr demand) \<Rightarrow>
                 (case evaluate_damage_state demand capacity_sample lsds_sample of
                    Inl e \<Rightarrow> (lg, Inl e)
                  | Inr ds_sample \<Rightarrow>
                     (case prepare_dmg_quantities PG_i (cmp_sample M) (cmp_blocks M PG_i) ds_sample of
                        Inl e \<Rightarrow> (lg, Inl e)
                      | Inr qnt_sample \<Rightarrow>
                         (case calculate_PGs M PGs of
                            (lg', Inl e) \<Rightarrow> (lg @ lg', Inl e)
                          | (lg', Inr qnt_samples) \<Rightarrow>
                              (lg @ lg', Inr (qnt_sample # qnt_samples)))))))))"

text \<open>
  \<^verbatim>\<open>pd.concat(frames, axis=1, keys=keys)\<close>: the columns of the frames side by side, each
  label with the key of its frame in front; ValueError for an empty list of frames.
\<close>

definition concat_keys :: "label list \<Rightarrow> 'a frame list \<Rightarrow> error + 'a frame" where
  "concat_keys keys fs =
     (if fs = [] then Inl ValueError
      else Inr \<lparr>columns = concat (map2 (\<lambda>k f. map ((@) k) (columns f)) keys fs),
                rows = map (\<lambda>r. concat (map (\<lambda>f. rows f ! r) fs)) [0..<length (rows (hd fs))]\<rparr>)"

text \<open>
  Lines 1989-2015 of \<^verbatim>\<open>calculate(self, sample_size, dmg_process=None)\<close>: the loop over the
  columns of the component sample and the concatenation of the results.
\<close>

definition calculate_qnt_sample :: "damage_model \<Rightarrow> log_msg list \<times> (error + real frame)" where
  "calculate_qnt_sample M =
     (case calculate_PGs M (columns (cmp_sample M)) of
        (lg, Inl e) \<Rightarrow> (lg, Inl e)
      | (lg, Inr qnt_samples) \<Rightarrow> (lg, concat_keys (columns (cmp_sample M)) qnt_samples))"

text \<open>Python's \<^verbatim>\<open>sep.join(parts)\<close>.\<close>

fun join :: "string \<Rightarrow> string list \<Rightarrow> string" where
  "join sep [] = []"
| "join sep [p] = p"
| "join sep (p # q # ps) = p @ sep @ join sep (q # ps)"

text \<open>
  Example: an asset with the directional component C.20 at location 1 (which needs the
  demand PID at location 1, direction 1) and the non-directional component B.10 at
  location 3 (which needs PFA at location 5), each with one block of one limit state with
  capacity 1/2 in both realizations, and a demand sample that has PFA at locations 4 and
  5 only. In the second asset B.10 is at location 1 and needs PFA at location 3.
\<close>

definition example_model :: "label list \<Rightarrow> damage_model" where
  "example_model PGs =
     \<lparr>damage_params = Some example_DP,
      model_options = example_options,
      demand_sample = example_demand,
      cmp_sample = \<lparr>columns = PGs, rows = [map (\<lambda>PG. 10) PGs, map (\<lambda>PG. 10) PGs]\<rparr>,
      cmp_blocks = (\<lambda>PG. [1]),
      capacity_RV_sample = (\<lambda>PG. \<lparr>columns = [[join ''-'' ([''FRG''] @ PG @ [''1'', ''1''])]],
                                      rows = [[1 / 2], [1 / 2]]\<rparr>),
      lsds_RV_sample = (\<lambda>PG. \<lparr>columns = [[join ''-'' ([''LSDS''] @ PG @ [''1'', ''1''])]],
                                  rows = [[1], [1]]\<rparr>)\<rparr>"

section \<open>BldgRepairModel: economies of scale and median consequences\<close>

text \<open>The option \<^verbatim>\<open>options.eco_scale\<close>: two independent switches.\<close>

record eco_scale =
  AcrossFloors :: bool
  AcrossDamageStates :: bool

text \<open>
  Lines 2565-2594 of \<^verbatim>\<open>_generate_DV_sample\<close>: the damaged quantities, whose columns have
  the levels (component, location, direction, damage state), pooled as the options ask.
  The result is the table \<^verbatim>\<open>eco_qnt\<close> with the names of its column levels.
\<close>

definition eco_quantities :: "eco_scale \<Rightarrow> real frame \<Rightarrow> error + string list \<times> real frame" where
  "eco_quantities opts dmg_quantities =
     (if list_ex (\<lambda>k. length k < 4) (columns dmg_quantities) then Inl IndexError
      else if AcrossFloors opts then
        (if AcrossDamageStates opts
         then Inr ([''cmp''], groupby_sum [0] dmg_quantities)
         else Inr ([''cmp'', ''ds''], groupby_sum [0, 3] dmg_quantities))
      else
        (if AcrossDamageStates opts
         then Inr ([''cmp'', ''loc''], groupby_sum [0, 1] dmg_quantities)
         else Inr ([''cmp'', ''loc'', ''ds''], groupby_sum [0, 1, 3] dmg_quantities)))"

text \<open>
  An entry \<^verbatim>\<open>Theta_0\<close> of the consequence parameter table: empty, a number (a constant
  median), or the string of a multilinear function, here already split at the bar and
  the commas into its medians and its quantities.
\<close>

datatype theta = NaN | Constant real | Multilinear "real list" "real list"

text \<open>
  The loss model: the loss map, one line per loss component id with its driver (type and
  component) and its consequence name; and of the table of consequence parameters its
  index (consequence name and \<^verbatim>\<open>'Cost'\<close> or \<^verbatim>\<open>'Time'\<close>), the first level of its columns, in
  column order without repetition, and the entry \<^verbatim>\<open>(DS, 'Theta_0')\<close> of each line.
\<close>

record loss_model =
  loss_map :: "(nat \<times> (string \<times> string) \<times> string) list"
  loss_params_index :: "(string \<times> string) list"
  loss_params_columns :: "string list"
  loss_params_Theta_0 :: "string \<times> string \<Rightarrow> string \<Rightarrow> theta"

text \<open>
  Lines 2439-2448 and 2469: the median function of an entry applied to every value of a
  table of quantities.
\<close>

definition sequence :: "(error + 'a) list \<Rightarrow> error + 'a list" where
  "sequence xs = foldr (\<lambda>x acc. case x of Inl e \<Rightarrow> Inl e
                                | Inr v \<Rightarrow> (case acc of Inl e \<Rightarrow> Inl e | Inr vs \<Rightarrow> Inr (v # vs)))
                       xs (Inr [])"

definition apply_median :: "theta \<Rightarrow> real list list \<Rightarrow> error + real list list" where
  "apply_median theta_0 vals =
     (case theta_0 of
        Constant m \<Rightarrow> Inr (map (map (prep_constant_median_DV m)) vals)
      | Multilinear ms qs \<Rightarrow>
          sequence (map (\<lambda>row. sequence (map (\<lambda>q. prep_bounded_multilinear_median_DV ms qs (Some q)) row))
                        vals)
      | NaN \<Rightarrow> Inl TypeError)"

text \<open>
  \<^verbatim>\<open>eco_qnt.loc[:, key]\<close> for a tuple of leading levels, followed by lines 2464-2467: a
  key with as many levels as the columns gives a Series, which becomes a frame with the
  one column \<^verbatim>\<open>'X'\<close> on a level named \<^verbatim>\<open>'del'\<close>; a shorter key gives the frame of the
  matching columns with the remaining levels and their names.
\<close>

definition select_eco_qnt ::
  "string list \<Rightarrow> real frame \<Rightarrow> label \<Rightarrow> error + string list \<times> real frame" where
  "select_eco_qnt names eco_qnt key =
     (case loc_prefix key eco_qnt of
        Inl e \<Rightarrow> Inl e
      | Inr sub \<Rightarrow>
          if length key = length names
          then Inr ([''del''], \<lparr>columns = [[''X'']], rows = map (take 1) (rows sub)\<rparr>)
          else Inr (drop (length key) names, sub))"

text \<open>
  The loop over the damage states of one loss component, lines 2422-2472. The result
  collects \<^verbatim>\<open>ds_list\<close> and \<^verbatim>\<open>sub_medians\<close>, each table with the names of its levels.
\<close>

fun median_ds_loop ::
  "loss_model \<Rightarrow> string list \<Rightarrow> real frame \<Rightarrow> string \<Rightarrow> string \<times> string \<Rightarrow> string list \<Rightarrow>
     error + (string \<times> string list \<times> real frame) list" where
  "median_ds_loop L names eco_qnt driver_cmp row [] = Inr []"
| "median_ds_loop L names eco_qnt driver_cmp row (ds # dss) =
     (if take 2 ds \<noteq> ''DS'' then median_ds_loop L names eco_qnt driver_cmp row dss
      else
        (let ds_id = drop 2 ds in
         if ds_id = ''0'' then median_ds_loop L names eco_qnt driver_cmp row dss
         else
           (let theta_0 = loss_params_Theta_0 L row ds in
            if theta_0 = NaN then median_ds_loop L names eco_qnt driver_cmp row dss
            else
              (case (if ''ds'' \<in> set names
                     then (case loc_prefix [driver_cmp] eco_qnt of
                             Inl e \<Rightarrow> Inl e
                           | Inr sub \<Rightarrow>
                               if ds_id \<notin> set (map hd (columns sub)) then Inr None
                               else (case select_eco_qnt names eco_qnt [driver_cmp, ds_id] of
                                       Inl e \<Rightarrow> Inl e | Inr q \<Rightarrow> Inr (Some q)))
                     else (case select_eco_qnt names eco_qnt [driver_cmp] of
                             Inl e \<Rightarrow> Inl e | Inr q \<Rightarrow> Inr (Some q))) of
                 Inl e \<Rightarrow> Inl e
               | Inr None \<Rightarrow> median_ds_loop L names eco_qnt driver_cmp row dss
               | Inr (Some (names_i, eco_qnt_i)) \<Rightarrow>
                   (case apply_median theta_0 (rows eco_qnt_i) of
                      Inl e \<Rightarrow> Inl e
                    | Inr vals \<Rightarrow>
                        (case median_ds_loop L names eco_qnt driver_cmp row dss of
                           Inl e \<Rightarrow> Inl e
                         | Inr rest \<Rightarrow> Inr ((ds_id, names_i, eco_qnt_i\<lparr>rows := vals\<rparr>) # rest)))))))"

text \<open>
  The loop over the loss components, lines 2400-2477, for one type of consequence. The
  result collects \<^verbatim>\<open>cmp_list\<close> and \<^verbatim>\<open>median_list\<close>; the id of a loss component, a number in
  the source, is written as a numeral in the labels.
\<close>

fun median_cmp_loop ::
  "loss_model \<Rightarrow> string list \<Rightarrow> real frame \<Rightarrow> string \<Rightarrow>
     (nat \<times> (string \<times> string) \<times> string) list \<Rightarrow> error + (string \<times> string list \<times> real frame) list" where
  "median_cmp_loop L names eco_qnt DV_type_scase [] = Inr []"
| "median_cmp_loop L names eco_qnt DV_type_scase ((loss_cmp_id, (driver_type, driver_cmp), loss_cmp_name) # lm) =
     (if (loss_cmp_name, DV_type_scase) \<notin> set (loss_params_index L)
      then median_cmp_loop L names eco_qnt DV_type_scase lm
      else if driver_type \<noteq> ''DMG'' then Inl ValueError
      else if driver_cmp \<notin> set (map hd (columns eco_qnt))
      then median_cmp_loop L names eco_qnt DV_type_scase lm
      else
        (case median_ds_loop L names eco_qnt driver_cmp (loss_cmp_name, DV_type_scase)
                (loss_params_columns L) of
           Inl e \<Rightarrow> Inl e
         | Inr subs \<Rightarrow>
            (case median_cmp_loop L names eco_qnt DV_type_scase lm of
               Inl e \<Rightarrow> Inl e
             | Inr rest \<Rightarrow>
                 if subs = [] then Inr rest
                 else (case concat_keys (map (\<lambda>(ds_id, n, f). [ds_id]) subs) (map (\<lambda>(ds_id, n, f). f) subs) of
                         Inl e \<Rightarrow> Inl e
                       | Inr f \<Rightarrow> Inr ((py_str (int loss_cmp_id), '''' # fst (snd (hd subs)), f) # rest)))))"

text \<open>
  Lines 2479-2492 for one type of consequence: the tables of the loss components side by
  side, the level \<^verbatim>\<open>'del'\<close> dropped, and the levels named; naming fails with ValueError
  when the number of names is not the number of levels. \<^verbatim>\<open>None\<close> stands for no entry in
  the dictionary \<^verbatim>\<open>medians\<close>.
\<close>

definition median_result ::
  "eco_scale \<Rightarrow> (string \<times> string list \<times> real frame) list \<Rightarrow> error + (string list \<times> real frame) option" where
  "median_result opts meds =
     (if meds = [] then Inr None
      else
        (case concat_keys (map (\<lambda>(c, n, f). [c]) meds) (map (\<lambda>(c, n, f). f) meds) of
           Inl e \<Rightarrow> Inl e
         | Inr result \<Rightarrow>
            (let names = '''' # fst (snd (hd meds));
                 result = (if ''del'' \<in> set names
                           then result\<lparr>columns := map (\<lambda>k. map snd (filter (\<lambda>(n, l). n \<noteq> ''del'') (zip names k)))
                                                   (columns result)\<rparr>
                           else result);
                 nlevels = length (filter (\<lambda>n. n \<noteq> ''del'') names);
                 new_names = (if AcrossFloors opts then [''cmp'', ''ds''] else [''cmp'', ''ds'', ''loc''])
             in if length new_names \<noteq> nlevels then Inl ValueError
                else Inr (Some (new_names, result)))))"

text \<open>
  \<^verbatim>\<open>_calc_median_consequence(self, eco_qnt)\<close>, lines 2387-2494: the dictionary \<^verbatim>\<open>medians\<close> as
  a list of entries, \<^verbatim>\<open>'COST'\<close> before \<^verbatim>\<open>'TIME'\<close>, each a table with the names of its levels.
\<close>

definition calc_median_consequence ::
  "loss_model \<Rightarrow> eco_scale \<Rightarrow> string list \<times> real frame \<Rightarrow>
     error + (string \<times> string list \<times> real frame) list" where
  "calc_median_consequence L opts eco =
     (case median_cmp_loop L (fst eco) (snd eco) ''Cost'' (loss_map L) of
        Inl e \<Rightarrow> Inl e
      | Inr cost \<Rightarrow>
         (case median_result opts cost of
            Inl e \<Rightarrow> Inl e
          | Inr c \<Rightarrow>
             (case median_cmp_loop L (fst eco) (snd eco) ''Time'' (loss_map L) of
                Inl e \<Rightarrow> Inl e
              | Inr time \<Rightarrow>
                 (case median_result opts time of
                    Inl e \<Rightarrow> Inl e
                  | Inr t \<Rightarrow>
                      Inr ((case c of None \<Rightarrow> [] | Some r \<Rightarrow> [(''COST'', r)]) @
                           (case t of None \<Rightarrow> [] | Some r \<Rightarrow> [(''TIME'', r)]))))))"

text \<open>
  The median consequences of a sample of damaged quantities, as lines 2565-2601 of
  \<^verbatim>\<open>_generate_DV_sample\<close> obtain them.
\<close>

definition median_consequences ::
  "loss_model \<Rightarrow> eco_scale \<Rightarrow> real frame \<Rightarrow> error + (string \<times> string list \<times> real frame) list" where
  "median_consequences L opts dmg_quantities =
     (case eco_quantities opts dmg_quantities of
        Inl e \<Rightarrow> Inl e
      | Inr eco \<Rightarrow> calc_median_consequence L opts eco)"

text \<open>
  Example: component A at locations 1 and 2 (direction 1), in one realization with 3 units
  undamaged and 7 units in damage state 1 at location 1, and 10 units undamaged at
  location 2; a loss map with the one loss component 0 driven by the damage of A; a repair
  cost with median 100 in damage state 1.
\<close>

definition example_dmg_quantities :: "real frame" where
  "example_dmg_quantities =
     \<lparr>columns = [[''A'', ''1'', ''1'', ''0''], [''A'', ''1'', ''1'', ''1''],
                 [''A'', ''2'', ''1'', ''0''], [''A'', ''2'', ''1'', ''1'']],
      rows = [[3, 7, 10, 0]]\<rparr>"

definition example_loss_model :: loss_model where
  "example_loss_model =
     \<lparr>loss_map = [(0, (''DMG'', ''A''), ''A'')],
      loss_params_index = [(''A'', ''Cost'')],
      loss_params_columns = [''Quantity'', ''DV'', ''DS1''],
      loss_params_Theta_0 = (\<lambda>row ds. if row = (''A'', ''Cost'') \<and> ds = ''DS1'' then Constant 100 else NaN)\<rparr>"

section \<open>DamageModel.\_create\_dmg\_RVs\<close>

text \<open>
  A cell of the damage model table: empty, a number, a string, or the string of damage
  state weights, given by the numbers that it holds between the bars.
\<close>

datatype cell = Null | Num real | Str string | Weights "real list"

text \<open>
  The random variables that the method creates: an empirical variable whose raw samples
  are 10000 copies of one value (a number, not-a-number, or the lowest or the highest
  float), a variable of a distribution family with its parameters, and a multinomial
  variable with its weights and the offset that its map function adds.
\<close>

datatype sample_value = Value real | NaN_value | Lowest_float | Highest_float

datatype RandomVariable =
    Empirical string sample_value
  | Parametric string cell "cell list"
  | Multinomial string "real list" int

fun name :: "RandomVariable \<Rightarrow> string" where
  "name (Empirical n v) = n"
| "name (Parametric n f th) = n"
| "name (Multinomial n w off) = n"

record RandomVariableSet =
  set_name :: string
  members :: "string list"
  Rho :: "real matrix"

record RandomVariableRegistry =
  RV :: "RandomVariable list"
  RV_set :: "RandomVariableSet list"

definition empty_registry :: RandomVariableRegistry where
  "empty_registry = \<lparr>RV = [], RV_set = []\<rparr>"

text \<open>
  Modelled from the spec: the registry of \<^verbatim>\<open>uq.py\<close> is not among the sources. The spec says
  that \<^verbatim>\<open>add_RV\<close> registers a uniquely named variable and raises on a duplicate name, and
  that every variable that a set passed to \<^verbatim>\<open>add_RV_set\<close> refers to must be registered
  already.
\<close>

definition add_RV :: "RandomVariable \<Rightarrow> RandomVariableRegistry \<Rightarrow> error + RandomVariableRegistry" where
  "add_RV rv reg =
     (if name rv \<in> set (map name (RV reg)) then Inl ValueError
      else Inr (reg\<lparr>RV := RV reg @ [rv]\<rparr>))"

definition add_RV_set ::
  "RandomVariableSet \<Rightarrow> RandomVariableRegistry \<Rightarrow> error + RandomVariableRegistry" where
  "add_RV_set s reg =
     (if list_all (\<lambda>n. n \<in> set (map name (RV reg))) (members s)
      then Inr (reg\<lparr>RV_set := RV_set reg @ [s]\<rparr>)
      else Inl KeyError)"

text \<open>\<^verbatim>\<open>np.ones((n, n))\<close>.\<close>

definition ones :: "nat \<Rightarrow> real matrix" where
  "ones n = replicate n (replicate n 1)"

text \<open>
  The names of the random variables: \<^verbatim>\<open>f'FRG-{PG[0]}-{PG[1]}-{PG[2]}-{block}-{ls_id}'\<close>,
  the same with \<^verbatim>\<open>LSDS\<close>, and the name of the set of a block.
\<close>

definition rv_tag :: "string \<Rightarrow> label \<Rightarrow> nat \<Rightarrow> string \<Rightarrow> string" where
  "rv_tag kind PG block ls_id =
     kind @ ''-'' @ PG ! 0 @ ''-'' @ PG ! 1 @ ''-'' @ PG ! 2 @ ''-'' @ py_str (int block) @ ''-'' @ ls_id"

definition rv_set_tag :: "label \<Rightarrow> nat \<Rightarrow> string" where
  "rv_set_tag PG block =
     ''FRG-'' @ PG ! 0 @ ''-'' @ PG ! 1 @ ''-'' @ PG ! 2 @ ''-'' @ py_str (int block) @ ''_set''"

text \<open>
  \<^verbatim>\<open>assign_lsds(ds_weights, ds_id, lsds_RV_reg, lsds_rv_tag)\<close>, lines 1272-1310: the new
  registry and the new \<^verbatim>\<open>ds_id\<close>.
\<close>

definition assign_lsds ::
  "cell \<Rightarrow> int \<Rightarrow> RandomVariableRegistry \<Rightarrow> string \<Rightarrow> error + RandomVariableRegistry \<times> int" where
  "assign_lsds ds_weights ds_id lsds_RV_reg lsds_rv_tag =
     (case ds_weights of
        Null \<Rightarrow>
          (case add_RV (Empirical lsds_rv_tag (Value (of_int (ds_id + 1)))) lsds_RV_reg of
             Inl e \<Rightarrow> Inl e
           | Inr reg \<Rightarrow> Inr (reg, ds_id + 1))
      | Weights ws \<Rightarrow>
          (case add_RV (Multinomial lsds_rv_tag ws (ds_id + 1)) lsds_RV_reg of
             Inl e \<Rightarrow> Inl e
           | Inr reg \<Rightarrow> Inr (reg, ds_id + int (length ws)))
      | _ \<Rightarrow> Inl TypeError)"

text \<open>
  The parameters of a component: the line of the damage model table, a Series indexed by
  pairs such as \<^verbatim>\<open>('LS1', 'Theta_0')\<close>, in index order.
\<close>

type_synonym frg_params = "((string \<times> string) \<times> cell) list"

definition frg_loc :: "frg_params \<Rightarrow> string \<times> string \<Rightarrow> error + cell" where
  "frg_loc frg key = (case map_of frg key of None \<Rightarrow> Inl KeyError | Some c \<Rightarrow> Inr c)"

text \<open>\<^verbatim>\<open>'LS' in val\<close>, and the list of limit state ids of lines 1346-1349.\<close>

definition contains_LS :: "string \<Rightarrow> bool" where
  "contains_LS val = list_ex (\<lambda>i. take 2 (drop i val) = ''LS'') [0..<length val]"

definition limit_states_of :: "frg_params \<Rightarrow> string list" where
  "limit_states_of frg = map (drop 2) (filter contains_LS (remdups (map (fst \<circ> fst) frg)))"

text \<open>
  The test of line 1364, \<^verbatim>\<open>if ~pd.isnull(theta_0)\<close>: \<^verbatim>\<open>pd.isnull\<close> of a scalar is a Python
  \<^verbatim>\<open>bool\<close>, and \<^verbatim>\<open>~\<close> on a \<^verbatim>\<open>bool\<close> is the bitwise complement of 0 or 1 as an integer, which
  is -1 or -2; the test is whether that integer is not 0.
\<close>

definition py_invert_bool :: "bool \<Rightarrow> int" where
  "py_invert_bool b = - 1 - (if b then 1 else 0)"

definition limit_state_is_defined :: "cell \<Rightarrow> bool" where
  "limit_state_is_defined theta_0 = (py_invert_bool (theta_0 = Null) \<noteq> 0)"

text \<open>
  The state of the loops: the two registries, the count of variables, the running damage
  state id of the block and the names collected for the set of the block.
\<close>

record rv_state =
  capacity_RV_reg :: RandomVariableRegistry
  lsds_RV_reg :: RandomVariableRegistry
  rv_count :: nat
  ds_id :: int
  frg_rv_set_tags :: "string list"

text \<open>
  Lines 1392-1426, the damage function case of one limit state: one capacity variable and
  one LS-to-DS variable for each of \<^verbatim>\<open>ls_count\<close> blocks. Every round assigns the LS-to-DS
  variable from the same \<^verbatim>\<open>ds_id\<close>; the last result becomes the new \<^verbatim>\<open>ds_id\<close>. (The
  bookkeeping of the quantities, which is local to the method, is left out.)
\<close>

fun function_rounds ::
  "label \<Rightarrow> nat \<Rightarrow> nat \<Rightarrow> string \<Rightarrow> int \<Rightarrow> cell \<Rightarrow> int \<Rightarrow> nat list \<Rightarrow> rv_state \<Rightarrow> error + rv_state \<times> int" where
  "function_rounds PG block_i ls_count ls_id ls_num ds_weights ds_id_post [] st = Inr (st, ds_id_post)"
| "function_rounds PG block_i ls_count ls_id ls_num ds_weights ds_id_post (ls_i # rest) st =
     (let block_id = block_i * ls_count + ls_i + 1;
          sample = (if ls_num \<le> int ls_i + 1 then Lowest_float else Highest_float)
      in case add_RV (Empirical (rv_tag ''FRG'' PG block_id ls_id) sample) (capacity_RV_reg st) of
           Inl e \<Rightarrow> Inl e
         | Inr cap \<Rightarrow>
            (case assign_lsds ds_weights (ds_id st) (lsds_RV_reg st) (rv_tag ''LSDS'' PG block_id ls_id) of
               Inl e \<Rightarrow> Inl e
             | Inr (lsds, post) \<Rightarrow>
                 function_rounds PG block_i ls_count ls_id ls_num ds_weights post rest
                   (st\<lparr>capacity_RV_reg := cap, lsds_RV_reg := lsds, rv_count := rv_count st + 1\<rparr>)))"

text \<open>Lines 1359-1473, the body of the loop over the limit states for one limit state.\<close>

definition limit_state_step ::
  "label \<Rightarrow> frg_params \<Rightarrow> nat \<Rightarrow> nat \<Rightarrow> string \<Rightarrow> rv_state \<Rightarrow> error + rv_state" where
  "limit_state_step PG frg ls_count block_i ls_id st =
     (case frg_loc frg (''LS'' @ ls_id, ''Theta_0'') of
        Inl e \<Rightarrow> Inl e
      | Inr theta_0 \<Rightarrow>
         if \<not> limit_state_is_defined theta_0 then Inr st
         else
          (case frg_loc frg (''LS'' @ ls_id, ''Family'') of
             Inl e \<Rightarrow> Inl e
           | Inr family \<Rightarrow>
          (case frg_loc frg (''LS'' @ ls_id, ''Theta_1'') of
             Inl e \<Rightarrow> Inl e
           | Inr theta_1 \<Rightarrow>
          (case frg_loc frg (''LS'' @ ls_id, ''DamageStateWeights'') of
             Inl e \<Rightarrow> Inl e
           | Inr ds_weights \<Rightarrow>
              if family = Str ''function'' then
                (case py_int ls_id of
                   Inl e \<Rightarrow> Inl e
                 | Inr ls_num \<Rightarrow>
                    (case function_rounds PG block_i ls_count ls_id ls_num ds_weights (ds_id st)
                            [0..<ls_count] st of
                       Inl e \<Rightarrow> Inl e
                     | Inr (st', ds_id_post) \<Rightarrow> Inr (st'\<lparr>ds_id := ds_id_post\<rparr>)))
              else
                (let frg_rv_tag = rv_tag ''FRG'' PG (block_i + 1) ls_id in
                 case (if family = Null
                       then (case theta_0 of
                               Num v \<Rightarrow> Inr (Empirical frg_rv_tag (Value v))
                             | Null \<Rightarrow> Inr (Empirical frg_rv_tag NaN_value)
                             | _ \<Rightarrow> Inl TypeError)
                       else Inr (Parametric frg_rv_tag family [theta_0, theta_1])) of
                   Inl e \<Rightarrow> Inl e
                 | Inr rv \<Rightarrow>
                    (case add_RV rv (capacity_RV_reg st) of
                       Inl e \<Rightarrow> Inl e
                     | Inr cap \<Rightarrow>
                        (case assign_lsds ds_weights (ds_id st) (lsds_RV_reg st)
                                (rv_tag ''LSDS'' PG (block_i + 1) ls_id) of
                           Inl e \<Rightarrow> Inl e
                         | Inr (lsds, ds_id') \<Rightarrow>
                             Inr (st\<lparr>capacity_RV_reg := cap, lsds_RV_reg := lsds,
                                     rv_count := rv_count st + 1, ds_id := ds_id',
                                     frg_rv_set_tags := frg_rv_set_tags st @ [frg_rv_tag]\<rparr>))))))))"

fun limit_state_loop ::
  "label \<Rightarrow> frg_params \<Rightarrow> nat \<Rightarrow> nat \<Rightarrow> string list \<Rightarrow> rv_state \<Rightarrow> error + rv_state" where
  "limit_state_loop PG frg ls_count block_i [] st = Inr st"
| "limit_state_loop PG frg ls_count block_i (ls_id # lss) st =
     (case limit_state_step PG frg ls_count block_i ls_id st of
        Inl e \<Rightarrow> Inl e
      | Inr st' \<Rightarrow> limit_state_loop PG frg ls_count block_i lss st')"

text \<open>
  Lines 1353-1488, the body of the loop over the blocks for one block: the limit states,
  then the set of the block with a correlation matrix of ones.
\<close>

definition block_step ::
  "label \<Rightarrow> frg_params \<Rightarrow> string list \<Rightarrow> nat \<Rightarrow> rv_state \<Rightarrow> error + rv_state" where
  "block_step PG frg limit_states block_i st =
     (case limit_state_loop PG frg (length limit_states) block_i limit_states
             (st\<lparr>ds_id := 0, frg_rv_set_tags := []\<rparr>) of
        Inl e \<Rightarrow> Inl e
      | Inr st' \<Rightarrow>
          if length (frg_rv_set_tags st') > 0
          then (case add_RV_set \<lparr>set_name = rv_set_tag PG (block_i + 1),
                                 members = frg_rv_set_tags st',
                                 Rho = ones (length (frg_rv_set_tags st'))\<rparr>
                       (capacity_RV_reg st') of
                  Inl e \<Rightarrow> Inl e
                | Inr cap \<Rightarrow> Inr (st'\<lparr>capacity_RV_reg := cap\<rparr>))
          else Inr st')"

fun block_loop ::
  "label \<Rightarrow> frg_params \<Rightarrow> string list \<Rightarrow> nat list \<Rightarrow> rv_state \<Rightarrow> error + rv_state" where
  "block_loop PG frg limit_states [] st = Inr st"
| "block_loop PG frg limit_states (block_i # bs) st =
     (case block_step PG frg limit_states block_i st of
        Inl e \<Rightarrow> Inl e
      | Inr st' \<Rightarrow> block_loop PG frg limit_states bs st')"

text \<open>
  \<^verbatim>\<open>_create_dmg_RVs(self, PG)\<close>, lines 1266-1494. \<open>damage_table\<close> is the damage model table
  (component id to its line), \<open>n_blocks\<close> the number of blocks of the performance group,
  the length of the weights that lines 1325-1332 obtain from the asset model. The result
  is the pair of registries.
\<close>

definition create_dmg_RVs ::
  "(string \<rightharpoonup> frg_params) \<Rightarrow> nat \<Rightarrow> label \<Rightarrow>
     error + RandomVariableRegistry \<times> RandomVariableRegistry" where
  "create_dmg_RVs damage_table n_blocks PG =
     (let st = \<lparr>capacity_RV_reg = empty_registry, lsds_RV_reg = empty_registry,
                rv_count = 0, ds_id = 0, frg_rv_set_tags = []\<rparr>
      in if length PG < 3 then Inl IndexError
         else
          (case damage_table (PG ! 0) of
             None \<Rightarrow> Inr (capacity_RV_reg st, lsds_RV_reg st)
           | Some frg \<Rightarrow>
               (case block_loop PG frg (limit_states_of frg) [0..<n_blocks] st of
                  Inl e \<Rightarrow> Inl e
                | Inr st' \<Rightarrow> Inr (capacity_RV_reg st', lsds_RV_reg st'))))"

text \<open>No limit state of the component is defined by a damage function.\<close>

definition fragility_only :: "frg_params \<Rightarrow> bool" where
  "fragility_only frg =
     list_all (\<lambda>ls_id. map_of frg (''LS'' @ ls_id, ''Family'') \<noteq> Some (Str ''function''))
              (limit_states_of frg)"

text \<open>
  Example: a component with two limit states, the first lognormal with two mutually
  exclusive damage states, the second deterministic.
\<close>

definition example_frg_params :: frg_params where
  "example_frg_params =
     [((''Demand'', ''Type''), Str ''Peak Floor Acceleration''),
      ((''LS1'', ''Family''), Str ''lognormal''),
      ((''LS1'', ''Theta_0''), Num 1),
      ((''LS1'', ''Theta_1''), Num (4 / 10)),
      ((''LS1'', ''DamageStateWeights''), Weights [3 / 10, 7 / 10]),
      ((''LS2'', ''Family''), Null),
      ((''LS2'', ''Theta_0''), Num 2),
      ((''LS2'', ''Theta_1''), Null),
      ((''LS2'', ''DamageStateWeights''), Null)]"

definition example_damage_table :: "string \<rightharpoonup> frg_params" where
  "example_damage_table = [''B.10'' \<mapsto> example_frg_params]"

section \<open>DamageModel.\_perform\_dmg\_task\<close>

text \<open>
  The damage sample \<^verbatim>\<open>qnt_sample\<close> has the column levels (component, location, direction,
  damage state); a value is a quantity or undefined (\<^verbatim>\<open>np.nan\<close>, here \<open>None\<close>). The component
  sample \<^verbatim>\<open>cmp_qnt\<close> of the asset has the levels (component, location, direction).
\<close>

text \<open>\<^verbatim>\<open>s.startswith(p)\<close>.\<close>

definition startswith :: "string \<Rightarrow> string \<Rightarrow> bool" where
  "startswith s p = (take (length p) s = p)"

text \<open>
  The largest defined value of a list, undefined when there is none (\<^verbatim>\<open>max\<close> skips
  undefined values), and the comparison \<^verbatim>\<open>> 0.0\<close>, which is false for an undefined value.
\<close>

definition nanmax :: "real option list \<Rightarrow> real option" where
  "nanmax vs = (case concat (map (\<lambda>v. case v of None \<Rightarrow> [] | Some x \<Rightarrow> [x]) vs) of
                  [] \<Rightarrow> None
                | x # xs \<Rightarrow> Some (fold max xs x))"

definition positive :: "real option \<Rightarrow> bool" where
  "positive v = (case v of None \<Rightarrow> False | Some x \<Rightarrow> 0 < x)"

text \<open>
  Lines 1791-1800: the realizations in which the source component has a positive quantity
  in the damage state \<open>ds_target\<close>, from the columns of the source component (levels
  location, direction, damage state). \<^verbatim>\<open>None\<close> when the damage state is not among the
  columns: the event is then not triggered.
\<close>

definition source_mask_of :: "real option frame \<Rightarrow> string \<Rightarrow> bool list option" where
  "source_mask_of source_cmp_df ds_target =
     (if ds_target \<in> set (map (\<lambda>k. k ! 2) (columns source_cmp_df))
      then Some (map (\<lambda>row. positive (nanmax (row_select (\<lambda>k. k ! 2 = ds_target)
                                                   (columns source_cmp_df) row)))
                     (rows source_cmp_df))
      else None)"

text \<open>\<^verbatim>\<open>F[l] = v\<close> for a label that is not a column yet: a new last column.\<close>

definition add_column :: "label \<Rightarrow> 'a \<Rightarrow> 'a frame \<Rightarrow> 'a frame" where
  "add_column l v F = \<lparr>columns = columns F @ [l], rows = map (\<lambda>row. row @ [v]) (rows F)\<rparr>"

text \<open>
  \<^verbatim>\<open>F.loc[mask, l] = vals[mask]\<close>: in the selected rows the column \<open>l\<close> takes the value of
  \<open>vals\<close> of that row.
\<close>

definition loc_assign_values :: "bool list \<Rightarrow> label \<Rightarrow> 'a list \<Rightarrow> 'a frame \<Rightarrow> 'a frame" where
  "loc_assign_values msk l vals F =
     F\<lparr>rows := map2 (\<lambda>(m, v) row. if m then map2 (\<lambda>k x. if k = l then v else x) (columns F) row
                                   else row)
                  (zip msk vals) (rows F)\<rparr>"

text \<open>
  Lines 1853-1861, for one performance group \<open>PG\<close> = (component, location, direction) of
  a target component: the column of the target damage state is added when the group does
  not have it, and takes the whole quantity of the group in the selected realizations.
\<close>

definition move_PG_to_DS ::
  "bool list \<Rightarrow> real frame \<Rightarrow> string \<Rightarrow> label \<Rightarrow> real option frame \<Rightarrow> error + real option frame" where
  "move_PG_to_DS source_mask cmp_qnt ds_i PG qnt_sample =
     (if \<not> list_ex (\<lambda>k. take 3 k = PG) (columns qnt_sample) then Inl KeyError
      else
        (let qnt_sample = (if PG @ [ds_i] \<notin> set (columns qnt_sample)
                           then add_column (PG @ [ds_i]) (Some 0) qnt_sample
                           else qnt_sample)
         in case getcol PG cmp_qnt of
              Inl e \<Rightarrow> Inl e
            | Inr q \<Rightarrow> Inr (loc_assign_values source_mask (PG @ [ds_i]) (map Some q) qnt_sample)))"

fun move_PGs_to_DS ::
  "bool list \<Rightarrow> real frame \<Rightarrow> string \<Rightarrow> label list \<Rightarrow> real option frame \<Rightarrow> error + real option frame" where
  "move_PGs_to_DS source_mask cmp_qnt ds_i [] qnt_sample = Inr qnt_sample"
| "move_PGs_to_DS source_mask cmp_qnt ds_i (PG # PGs) qnt_sample =
     (case move_PG_to_DS source_mask cmp_qnt ds_i PG qnt_sample of
        Inl e \<Rightarrow> Inl e
      | Inr q \<Rightarrow> move_PGs_to_DS source_mask cmp_qnt ds_i PGs q)"

text \<open>
  Lines 1849-1861, the loop over the target components: the performance groups of a
  component are the columns of the component sample under its name.
\<close>

fun move_cmps_to_DS ::
  "bool list \<Rightarrow> real frame \<Rightarrow> string \<Rightarrow> string list \<Rightarrow> real option frame \<Rightarrow> error + real option frame" where
  "move_cmps_to_DS source_mask cmp_qnt ds_i [] qnt_sample = Inr qnt_sample"
| "move_cmps_to_DS source_mask cmp_qnt ds_i (target_cmp_i # cmps) qnt_sample =
     (if \<not> list_ex (\<lambda>k. hd k = target_cmp_i) (columns cmp_qnt) then Inl KeyError
      else
        (case move_PGs_to_DS source_mask cmp_qnt ds_i
                (filter (\<lambda>k. hd k = target_cmp_i) (columns cmp_qnt)) qnt_sample of
           Inl e \<Rightarrow> Inl e
         | Inr q \<Rightarrow> move_cmps_to_DS source_mask cmp_qnt ds_i cmps q))"

text \<open>
  Lines 1815-1872, the body of the loop over the target infos of an event. \<open>source_mask\<close>
  is \<^verbatim>\<open>None\<close> while the variable is not bound. A target component that is neither
  \<^verbatim>\<open>'ALL'\<close> nor among the components of the damage sample is left by the source as the bare
  string; the model stops there.
\<close>

definition apply_target ::
  "string list \<Rightarrow> string \<Rightarrow> real frame \<Rightarrow> bool list option \<Rightarrow> string \<Rightarrow> real option frame
     \<Rightarrow> error + real option frame" where
  "apply_target cmp_list source_cmp cmp_qnt source_mask target_info qnt_sample =
     (case split_on CHR ''_'' target_info of
        [target_cmp, target_event] \<Rightarrow>
          (let target_cmp = (if target_cmp = ''ALL'' then Some (remove1 source_cmp cmp_list)
                             else if target_cmp \<in> set cmp_list then Some [target_cmp]
                             else None)
           in if startswith target_event ''LS'' then
                (case py_int (drop 2 target_event) of
                   Inl e \<Rightarrow> Inl e
                 | Inr ls_i \<Rightarrow> Inr qnt_sample)
              else if startswith target_event ''DS'' then
                (case source_mask of
                   None \<Rightarrow> Inl NameError
                 | Some source_mask \<Rightarrow>
                    (case target_cmp of
                       None \<Rightarrow> Inl Outside_model
                     | Some target_cmp \<Rightarrow>
                         move_cmps_to_DS source_mask cmp_qnt (drop 2 target_event) target_cmp
                           (loc_assign source_mask (\<lambda>k. hd k \<in> set target_cmp) (Some 0) qnt_sample)))
              else if target_event = ''NA'' then
                (case source_mask of
                   None \<Rightarrow> Inl NameError
                 | Some source_mask \<Rightarrow>
                    (case target_cmp of
                       None \<Rightarrow> Inl Outside_model
                     | Some target_cmp \<Rightarrow>
                         Inr (loc_assign source_mask (\<lambda>k. hd k \<in> set target_cmp) None qnt_sample)))
              else Inl ValueError)
      | _ \<Rightarrow> Inl ValueError)"

fun apply_targets ::
  "string list \<Rightarrow> string \<Rightarrow> real frame \<Rightarrow> bool list option \<Rightarrow> string list \<Rightarrow> real option frame
     \<Rightarrow> error + real option frame" where
  "apply_targets cmp_list source_cmp cmp_qnt source_mask [] qnt_sample = Inr qnt_sample"
| "apply_targets cmp_list source_cmp cmp_qnt source_mask (target_info # target_infos) qnt_sample =
     (case apply_target cmp_list source_cmp cmp_qnt source_mask target_info qnt_sample of
        Inl e \<Rightarrow> Inl e
      | Inr q \<Rightarrow> apply_targets cmp_list source_cmp cmp_qnt source_mask target_infos q)"

text \<open>
  Lines 1771-1872, the loop over the events of the task. The columns of the source
  component, \<open>source_cmp_df\<close>, are taken once, before the loop. An event on a limit state
  only parses its number and leaves \<open>source_mask\<close> as it is.
\<close>

fun perform_events ::
  "string list \<Rightarrow> string \<Rightarrow> real frame \<Rightarrow> real option frame \<Rightarrow> bool list option \<Rightarrow>
     (string \<times> string list) list \<Rightarrow> real option frame \<Rightarrow> error + real option frame" where
  "perform_events cmp_list source_cmp cmp_qnt source_cmp_df source_mask [] qnt_sample = Inr qnt_sample"
| "perform_events cmp_list source_cmp cmp_qnt source_cmp_df source_mask
     ((source_event, target_infos) # events) qnt_sample =
     (if startswith source_event ''LS'' then
        (case py_int (drop 2 source_event) of
           Inl e \<Rightarrow> Inl e
         | Inr ls_i \<Rightarrow>
            (case apply_targets cmp_list source_cmp cmp_qnt source_mask target_infos qnt_sample of
               Inl e \<Rightarrow> Inl e
             | Inr q \<Rightarrow> perform_events cmp_list source_cmp cmp_qnt source_cmp_df source_mask events q))
      else if startswith source_event ''DS'' then
        (case source_mask_of source_cmp_df (drop 2 source_event) of
           None \<Rightarrow> perform_events cmp_list source_cmp cmp_qnt source_cmp_df source_mask events qnt_sample
         | Some m \<Rightarrow>
            (case apply_targets cmp_list source_cmp cmp_qnt (Some m) target_infos qnt_sample of
               Inl e \<Rightarrow> Inl e
             | Inr q \<Rightarrow> perform_events cmp_list source_cmp cmp_qnt source_cmp_df (Some m) events q))
      else Inl ValueError)"

text \<open>
  \<^verbatim>\<open>_perform_dmg_task(self, task, qnt_sample)\<close>, lines 1744-1877. A task is the name of the
  rule, whose part after the underscore is the source component, and its events in order,
  each a source event with its list of target infos. \<open>cmp_qnt\<close> is the component sample of
  the asset.
\<close>

definition perform_dmg_task ::
  "real frame \<Rightarrow> string \<times> (string \<times> string list) list \<Rightarrow> real option frame
     \<Rightarrow> error + real option frame" where
  "perform_dmg_task cmp_qnt task qnt_sample =
     (let cmp_list = remdups (map hd (columns qnt_sample)) in
      case split_on CHR ''_'' (fst task) of
        _ # source_cmp # _ \<Rightarrow>
          if source_cmp \<notin> set cmp_list then Inl ValueError
          else
            (case loc_prefix [source_cmp] qnt_sample of
               Inl e \<Rightarrow> Inl e
             | Inr source_cmp_df \<Rightarrow>
                 perform_events cmp_list source_cmp cmp_qnt source_cmp_df None (snd task) qnt_sample)
      | _ \<Rightarrow> Inl IndexError)"

text \<open>
  The value of a table in a row under a label, \<open>None\<close> when the label is not a column; a
  table without repeated labels, with \<open>n\<close> levels and with one value per column in each
  of its rows.
\<close>

definition cell :: "'a frame \<Rightarrow> nat \<Rightarrow> label \<Rightarrow> 'a option" where
  "cell F r k = map_of (zip (columns F) (rows F ! r)) k"

definition table :: "nat \<Rightarrow> 'a frame \<Rightarrow> bool" where
  "table n F = (wf_frame n F \<and> distinct (columns F))"

text \<open>
  Example: a collapse component and two ordinary components, B at two locations and C at
  one, in three realizations; collapse occurs in the second realization only.
\<close>

definition example_cmp_qnt :: "real frame" where
  "example_cmp_qnt =
     \<lparr>columns = [[''collapse'', ''0'', ''1''], [''B'', ''1'', ''1''], [''B'', ''2'', ''1''],
                 [''C'', ''1'', ''1'']],
      rows = [[1, 10, 20, 5], [1, 10, 20, 5], [1, 10, 20, 5]]\<rparr>"

definition example_qnt_sample :: "real option frame" where
  "example_qnt_sample =
     \<lparr>columns = [[''collapse'', ''0'', ''1'', ''0''], [''collapse'', ''0'', ''1'', ''1''],
                 [''B'', ''1'', ''1'', ''0''], [''B'', ''1'', ''1'', ''1''],
                 [''B'', ''2'', ''1'', ''0''], [''B'', ''2'', ''1'', ''2''],
                 [''C'', ''1'', ''1'', ''0'']],
      rows = [[Some 1, Some 0, Some 10, Some 0, Some 20, Some 0, Some 5],
              [Some 0, Some 1, Some 4, Some 6, Some 0, Some 20, Some 5],
              [Some 1, Some 0, Some 0, Some 10, Some 20, Some 0, Some 5]]\<rparr>"

text \<open>
  The notions in which the effect of a rule is stated. The source condition of the event
  \<^verbatim>\<open>'DS' + ds\<close> holds in realization \<open>r\<close> when the source component has a positive
  quantity in damage state \<open>ds\<close> at one of its locations and directions. The target
  components of a target info are the named component, or, for \<^verbatim>\<open>'ALL'\<close>, every component
  of the damage sample but the source component.
\<close>

definition source_condition :: "real option frame \<Rightarrow> string \<Rightarrow> string \<Rightarrow> nat \<Rightarrow> bool" where
  "source_condition qnt_sample source_cmp ds r =
     list_ex (\<lambda>k. hd k = source_cmp \<and> k ! 3 = ds \<and>
                   (case cell qnt_sample r k of Some v \<Rightarrow> positive v | None \<Rightarrow> False))
             (columns qnt_sample)"

definition targets :: "real option frame \<Rightarrow> string \<Rightarrow> string \<Rightarrow> string set" where
  "targets qnt_sample source_cmp target_cmp =
     (if target_cmp = ''ALL'' then hd ` set (columns qnt_sample) - {source_cmp}
      else {target_cmp})"

(*DEFS-END*)

section \<open>Properties of estimate\_RID\<close>

lemma mat_map_nth:
  "i < length A \<Longrightarrow> j < length (A ! i) \<Longrightarrow> mat_map f A ! i ! j = f (A ! i ! j)"
  by (simp add: mat_map_def)

lemma mat_map_shape:
  "length (mat_map f A) = length A"
  "i < length A \<Longrightarrow> length (mat_map f A ! i) = length (A ! i)"
  by (simp_all add: mat_map_def)

lemma mat_map2_shape:
  "length (mat_map2 f A B) = min (length A) (length B)"
  "i < length A \<Longrightarrow> i < length B \<Longrightarrow>
     length (mat_map2 f A B ! i) = min (length (A ! i)) (length (B ! i))"
  by (simp_all add: mat_map2_def)

lemma mat_map2_nth:
  "i < length A \<Longrightarrow> i < length B \<Longrightarrow> j < length (A ! i) \<Longrightarrow> j < length (B ! i) \<Longrightarrow>
     mat_map2 f A B ! i ! j = f (A ! i ! j) (B ! i ! j)"
  by (simp add: mat_map2_def)

lemma mat_like_shape:
  "length (mat_like g A) = length A"
  "i < length A \<Longrightarrow> length (mat_like g A ! i) = length (A ! i)"
  by (simp_all add: mat_like_def)

lemma mat_like_nth:
  "i < length A \<Longrightarrow> j < length (A ! i) \<Longrightarrow> mat_like g A ! i ! j = g i j"
  by (simp add: mat_like_def)

lemma same_shape_length: "same_shape A B \<Longrightarrow> length A = length B"
  unfolding same_shape_def by (metis length_map)

lemma same_shape_row: "same_shape A B \<Longrightarrow> i < length A \<Longrightarrow> length (A ! i) = length (B ! i)"
  unfolding same_shape_def by (metis length_map nth_map)

lemma same_shapeI:
  "length A = length B \<Longrightarrow> (\<And>i. i < length A \<Longrightarrow> length (A ! i) = length (B ! i)) \<Longrightarrow>
   same_shape A B"
  unfolding same_shape_def by (simp add: list_eq_iff_nth_eq)

lemma same_shape_refl: "same_shape A A"
  by (simp add: same_shape_def)

lemma same_shape_mat_map: "same_shape (mat_map f A) A"
  by (rule same_shapeI) (simp_all add: mat_map_shape)

lemma same_shape_mat_like: "same_shape (mat_like g A) A"
  by (rule same_shapeI) (simp_all add: mat_like_shape)

lemma same_shape_trans: "same_shape A B \<Longrightarrow> same_shape B C \<Longrightarrow> same_shape A C"
  by (simp add: same_shape_def)

lemma same_shape_sym: "same_shape A B \<Longrightarrow> same_shape B A"
  by (simp add: same_shape_def)

lemma same_shape_mat_map2:
  assumes "same_shape A B"
  shows "same_shape (mat_map2 f A B) A"
proof (rule same_shapeI)
  show "length (mat_map2 f A B) = length A"
    using same_shape_length[OF assms] by (simp add: mat_map2_shape)
next
  fix i assume "i < length (mat_map2 f A B)"
  then have i: "i < length A" "i < length B"
    using same_shape_length[OF assms] by (simp_all add: mat_map2_shape)
  then show "length (mat_map2 f A B ! i) = length (A ! i)"
    using same_shape_row[OF assms i(1)] by (simp add: mat_map2_shape)
qed

lemma assign_where_shape:
  assumes "same_shape M R" "same_shape V R"
  shows "same_shape (assign_where M V R) R"
proof -
  have "same_shape (mat_map2 Pair V R) V"
    by (rule same_shape_mat_map2[OF assms(2)])
  then have VR: "same_shape (mat_map2 Pair V R) R"
    using assms(2) same_shape_trans by blast
  then have "same_shape M (mat_map2 Pair V R)"
    using assms(1) same_shape_sym same_shape_trans by blast
  then have "same_shape (assign_where M V R) M"
    unfolding assign_where_def by (rule same_shape_mat_map2)
  then show ?thesis
    using assms(1) same_shape_trans by blast
qed

lemma assign_where_nth:
  assumes "same_shape M R" "same_shape V R" "i < length R" "j < length (R ! i)"
  shows "assign_where M V R ! i ! j = (if M ! i ! j then V ! i ! j else R ! i ! j)"
proof -
  have lM: "length M = length R" "length (M ! i) = length (R ! i)"
    using assms(1,3) same_shape_length same_shape_row by fastforce+
  have lV: "length V = length R" "length (V ! i) = length (R ! i)"
    using assms(2,3) same_shape_length same_shape_row by fastforce+
  have VR: "same_shape (mat_map2 Pair V R) R"
    using same_shape_mat_map2[OF assms(2)] assms(2) same_shape_trans by blast
  have lP: "length (mat_map2 Pair V R) = length R"
           "length (mat_map2 Pair V R ! i) = length (R ! i)"
    using VR assms(3) same_shape_length same_shape_row by fastforce+
  have "mat_map2 Pair V R ! i ! j = (V ! i ! j, R ! i ! j)"
    using assms(3,4) lV by (simp add: mat_map2_nth)
  then show ?thesis
    unfolding assign_where_def using assms(3,4) lM lP by (simp add: mat_map2_nth)
qed

lemma estimate_RID_cells:
  assumes y: "params ''yield_drift'' = Some y"
  shows "\<exists>RID. estimate_RID PID params ''FEMA P58'' eps = Inr (Some RID) \<and> same_shape RID PID \<and>
           (\<forall>i j. i < length PID \<longrightarrow> j < length (PID ! i) \<longrightarrow>
               RID ! i ! j = RID_cell y (eps i j) (PID ! i ! j))"
proof -
  define R1 where "R1 = assign_where (mat_map (\<lambda>p. p \<ge> 4 * y) PID) (mat_map (\<lambda>p. p - 3 * y) PID) PID"
  define R2 where "R2 = assign_where (mat_map (\<lambda>p. p < 4 * y) PID) (mat_map (\<lambda>p. 0.3 * (p - y)) PID) R1"
  define R3 where "R3 = assign_where (mat_map (\<lambda>p. p < y) PID) (mat_map (\<lambda>p. 0) PID) R2"
  define R4 where "R4 = assign_where (mat_map (\<lambda>r. r > 0) R3)
                         (mat_map2 (\<lambda>r e. exp (ln r + e)) R3 (mat_like eps R3)) R3"
  have s1: "same_shape R1 PID"
    unfolding R1_def by (intro assign_where_shape same_shape_mat_map)
  have s2: "same_shape R2 R1"
    unfolding R2_def
    by (meson assign_where_shape same_shape_mat_map same_shape_sym same_shape_trans s1)
  have s3: "same_shape R3 R2"
    unfolding R3_def
    by (meson assign_where_shape same_shape_mat_map same_shape_sym same_shape_trans s1 s2)
  have s4: "same_shape R4 R3"
    unfolding R4_def
    by (meson assign_where_shape same_shape_mat_map same_shape_mat_map2 same_shape_mat_like
        same_shape_sym same_shape_trans)
  have sP: "same_shape R2 PID" "same_shape R3 PID" "same_shape R4 PID"
    using s1 s2 s3 s4 same_shape_trans by blast+
  have eq: "estimate_RID PID params ''FEMA P58'' eps = Inr (Some (mat_map2 min PID R4))"
    unfolding estimate_RID_def Let_def R4_def R3_def R2_def R1_def using y by simp
  have shape: "same_shape (mat_map2 min PID R4) PID"
    by (rule same_shape_mat_map2) (rule same_shape_sym[OF sP(3)])
  have cell: "mat_map2 min PID R4 ! i ! j = RID_cell y (eps i j) (PID ! i ! j)"
    if ij: "i < length PID" "j < length (PID ! i)" for i j
  proof -
    have l1: "i < length R1" "j < length (R1 ! i)"
      using ij same_shape_length[OF s1] same_shape_row[OF s1] by simp_all
    have l2: "i < length R2" "j < length (R2 ! i)"
      using ij same_shape_length[OF sP(1)] same_shape_row[OF sP(1)] by simp_all
    have l3: "i < length R3" "j < length (R3 ! i)"
      using ij same_shape_length[OF sP(2)] same_shape_row[OF sP(2)] by simp_all
    have l4: "i < length R4" "j < length (R4 ! i)"
      using ij same_shape_length[OF sP(3)] same_shape_row[OF sP(3)] by simp_all
    have c1: "R1 ! i ! j = (if PID ! i ! j \<ge> 4 * y then PID ! i ! j - 3 * y else PID ! i ! j)"
      unfolding R1_def using ij
      by (simp add: assign_where_nth same_shape_mat_map mat_map_nth)
    have c2: "R2 ! i ! j = (if PID ! i ! j < 4 * y then 0.3 * (PID ! i ! j - y) else R1 ! i ! j)"
      unfolding R2_def using ij l1
      by (simp add: assign_where_nth same_shape_mat_map mat_map_nth
          same_shape_trans[OF same_shape_mat_map same_shape_sym[OF s1]])
    have c3: "R3 ! i ! j = (if PID ! i ! j < y then 0 else R2 ! i ! j)"
      unfolding R3_def using ij l2
      by (simp add: assign_where_nth same_shape_mat_map mat_map_nth
          same_shape_trans[OF same_shape_mat_map same_shape_sym[OF sP(1)]])
    have e: "mat_map2 (\<lambda>r e. exp (ln r + e)) R3 (mat_like eps R3) ! i ! j
               = exp (ln (R3 ! i ! j) + eps i j)"
      using l3 by (simp add: mat_map2_nth mat_like_shape mat_like_nth)
    have c4: "R4 ! i ! j = (if R3 ! i ! j > 0 then exp (ln (R3 ! i ! j) + eps i j) else R3 ! i ! j)"
      unfolding R4_def using l3 e
      by (simp add: assign_where_nth same_shape_mat_map mat_map_nth
          same_shape_mat_map2 same_shape_sym[OF same_shape_mat_like])
    have "mat_map2 min PID R4 ! i ! j = min (PID ! i ! j) (R4 ! i ! j)"
      using ij l4 by (simp add: mat_map2_nth)
    then show ?thesis
      unfolding RID_cell_def Let_def c4 c3 c2 c1 by auto
  qed
  show ?thesis
    using eq shape cell by blast
qed

lemma RID_cell_le: "RID_cell y e p \<le> p"
  by (simp add: RID_cell_def Let_def)

lemma RID_cell_small: "p < y \<Longrightarrow> RID_cell y e p = min p 0"
  by (simp add: RID_cell_def Let_def)

text \<open>
  Claim C9, as the code has it. For every table of peak drifts and every yield drift,
  \<^verbatim>\<open>estimate_RID\<close> with method \<^verbatim>\<open>'FEMA P58'\<close> returns a table of the same shape whose
  entries are never greater than the corresponding peak drifts; where the peak drift is
  below the yield drift, the entry is the smaller of the peak drift and 0, hence exactly 0
  where the peak drift is not negative.
\<close>

theorem estimate_RID_bounded:
  assumes "params ''yield_drift'' = Some y" and "0 < y"
  shows "\<exists>RID. estimate_RID PID params ''FEMA P58'' eps = Inr (Some RID) \<and> same_shape RID PID \<and>
           (\<forall>i j. i < length PID \<longrightarrow> j < length (PID ! i) \<longrightarrow>
               RID ! i ! j \<le> PID ! i ! j \<and>
               (PID ! i ! j < y \<longrightarrow> RID ! i ! j = min (PID ! i ! j) 0) \<and>
               (0 \<le> PID ! i ! j \<longrightarrow> PID ! i ! j < y \<longrightarrow> RID ! i ! j = 0))"
proof -
  obtain RID where R: "estimate_RID PID params ''FEMA P58'' eps = Inr (Some RID)"
      "same_shape RID PID"
      "\<And>i j. i < length PID \<Longrightarrow> j < length (PID ! i) \<Longrightarrow>
               RID ! i ! j = RID_cell y (eps i j) (PID ! i ! j)"
    using estimate_RID_cells[of params y PID eps] assms(1) by blast
  have "RID ! i ! j \<le> PID ! i ! j \<and>
        (PID ! i ! j < y \<longrightarrow> RID ! i ! j = min (PID ! i ! j) 0) \<and>
        (0 \<le> PID ! i ! j \<longrightarrow> PID ! i ! j < y \<longrightarrow> RID ! i ! j = 0)"
    if "i < length PID" "j < length (PID ! i)" for i j
    using R(3)[OF that] RID_cell_le[of y "eps i j" "PID ! i ! j"]
      RID_cell_small[of "PID ! i ! j" y "eps i j"] by auto
  then show ?thesis
    using R(1,2) by blast
qed

theorem estimate_RID_bounded_witness:
  "\<exists>RID. estimate_RID [[1/2, 2, 5]] unit_yield_params ''FEMA P58'' no_noise = Inr (Some RID) \<and>
         RID ! 0 ! 0 = 0 \<and> RID ! 0 ! 1 \<le> 2 \<and> RID ! 0 ! 2 \<le> 5"
proof -
  define P :: "real matrix" where "P = [[1/2, 2, 5]]"
  have p: "unit_yield_params ''yield_drift'' = Some 1"
    by (simp add: unit_yield_params_def)
  have y: "(0::real) < 1" by simp
  obtain RID where R: "estimate_RID P unit_yield_params ''FEMA P58'' no_noise = Inr (Some RID)"
     and c: "\<And>i j. i < length P \<Longrightarrow> j < length (P ! i) \<Longrightarrow>
               RID ! i ! j \<le> P ! i ! j \<and> (0 \<le> P ! i ! j \<longrightarrow> P ! i ! j < 1 \<longrightarrow> RID ! i ! j = 0)"
    using estimate_RID_bounded[of unit_yield_params 1 P no_noise] p y by blast
  have "RID ! 0 ! 0 = 0" using c[of 0 0] by (simp add: P_def)
  moreover have "RID ! 0 ! 1 \<le> 2" using c[of 0 1] by (simp add: P_def)
  moreover have "RID ! 0 ! 2 \<le> 5" using c[of 0 2] by (simp add: P_def)
  ultimately show ?thesis using R unfolding P_def by blast
qed

text \<open>
  Claim C9 as stated fails for a negative peak drift: with a yield drift of 1 and a peak
  drift of -1 (which is below the yield drift) the residual drift is -1, not 0.
\<close>

theorem estimate_RID_zero_counterexample:
  "unit_yield_params ''yield_drift'' = Some 1 \<and> [[-1::real]] ! 0 ! 0 < 1 \<and>
   estimate_RID [[-1]] unit_yield_params ''FEMA P58'' no_noise = Inr (Some [[-1]]) \<and>
   [[-1::real]] ! 0 ! 0 \<noteq> 0"
  by (simp add: estimate_RID_def unit_yield_params_def no_noise_def mat_map_def mat_map2_def
      assign_where_def mat_like_def)

section \<open>Properties of the median consequence functions\<close>

lemma interp_scan_segment:
  assumes "sorted_wrt (<) (map fst ps)" "Suc i < length ps"
    "fst (ps ! i) \<le> x" "x \<le> fst (ps ! Suc i)"
  shows "interp_scan x ps = snd (ps ! i) +
      (snd (ps ! Suc i) - snd (ps ! i)) * (x - fst (ps ! i)) / (fst (ps ! Suc i) - fst (ps ! i))"
  using assms
proof (induction x ps arbitrary: i rule: interp_scan.induct)
  case (1 x)
  then show ?case by simp
next
  case (2 x x0 y0)
  then show ?case by simp
next
  case (3 x x0 y0 x1 y1 ps)
  show ?case
  proof (cases i)
    case 0
    have lt: "x0 < x1" using 3(2) by simp
    show ?thesis
    proof (cases "x < x1")
      case True
      then show ?thesis using 0 "3.prems" lt by (simp add: field_simps)
    next
      case False
      then have x: "x = x1" using "3.prems" 0 by simp
      have "interp_scan x ((x1, y1) # ps) = y1"
      proof (cases ps)
        case Nil
        then show ?thesis by simp
      next
        case (Cons p ps')
        obtain x2 y2 where p: "p = (x2, y2)" by (cases p)
        have "x1 < x2" using 3(2) Cons p by simp
        then show ?thesis using Cons p x by simp
      qed
      then show ?thesis using 0 x lt by (simp add: field_simps)
    qed
  next
    case (Suc k)
    have lt: "x0 < x1" using 3(2) by simp
    have k: "Suc k < length ((x1, y1) # ps)" using "3.prems"(2) Suc by simp
    have ge: "fst (((x1, y1) # ps) ! k) \<le> x" using "3.prems"(3) Suc by simp
    have "x1 \<le> fst (((x1, y1) # ps) ! k)"
    proof (cases k)
      case 0
      then show ?thesis by simp
    next
      case (Suc m)
      then show ?thesis using 3(2) k by (auto simp: less_imp_le)
    qed
    then have nlt: "\<not> x < x1" using ge by simp
    have "interp_scan x ((x1, y1) # ps) = snd (((x1, y1) # ps) ! k) +
      (snd (((x1, y1) # ps) ! Suc k) - snd (((x1, y1) # ps) ! k)) * (x - fst (((x1, y1) # ps) ! k))
        / (fst (((x1, y1) # ps) ! Suc k) - fst (((x1, y1) # ps) ! k))"
      using "3.IH"[OF nlt _ k ge] "3.prems" Suc by simp
    then show ?thesis using nlt Suc by simp
  qed
qed

lemma increasing_nth_le:
  assumes "increasing qs" "i \<le> j" "j < length qs"
  shows "qs ! i \<le> qs ! j"
proof (cases "i = j")
  case True
  then show ?thesis by simp
next
  case False
  then have "i < j" using assms(2) by simp
  then have "qs ! i < qs ! j"
    using assms(1,3) unfolding increasing_def by (simp add: sorted_wrt_iff_nth_less)
  then show ?thesis by simp
qed

lemma np_interp_segment:
  assumes inc: "increasing qs" and len: "length ms = length qs"
    and i: "Suc i < length qs" and lo: "qs ! i \<le> q" and hi: "q \<le> qs ! Suc i"
  shows "np_interp q qs ms = Inr (segment_interpolation qs ms i q)"
proof -
  have ne: "qs \<noteq> []" using i by auto
  have "hd qs = qs ! 0" using ne by (simp add: hd_conv_nth)
  then have h: "hd qs \<le> q"
    using increasing_nth_le[OF inc, of 0 i] i lo by simp
  have "last qs = qs ! (length qs - 1)" using ne by (simp add: last_conv_nth)
  moreover have "qs ! Suc i \<le> qs ! (length qs - 1)"
    using increasing_nth_le[OF inc, of "Suc i" "length qs - 1"] i by simp
  ultimately have l: "q \<le> last qs"
    using hi by simp
  have z: "map fst (zip qs ms) = qs" using len by simp
  have "interp_scan q (zip qs ms) = segment_interpolation qs ms i q"
    unfolding segment_interpolation_def
    using interp_scan_segment[of "zip qs ms" i q] inc z i len lo hi
    by (simp add: increasing_def)
  then show ?thesis
    using ne len h l by (simp add: np_interp_def)
qed

lemma np_interp_control_point:
  assumes inc: "increasing qs" and len: "length ms = length qs" and i: "i < length qs"
  shows "np_interp (qs ! i) qs ms = Inr (ms ! i)"
proof (cases "Suc i < length qs")
  case True
  show ?thesis
    using np_interp_segment[OF inc len True, of "qs ! i"]
      increasing_nth_le[OF inc, of i "Suc i"] True
    by (simp add: segment_interpolation_def)
next
  case False
  then have last: "i = length qs - 1" using i by simp
  show ?thesis
  proof (cases i)
    case 0
    then have "length qs = 1" using last i by simp
    then obtain a where qs: "qs = [a]" by (cases qs) auto
    then obtain b where ms: "ms = [b]" using len by (cases ms) auto
    show ?thesis using qs ms 0 by (simp add: np_interp_def)
  next
    case (Suc k)
    have k: "Suc k < length qs" using Suc i by simp
    have "qs ! k < qs ! Suc k"
      using inc k unfolding increasing_def by (simp add: sorted_wrt_iff_nth_less)
    then show ?thesis
      using np_interp_segment[OF inc len k, of "qs ! Suc k"] Suc
      by (simp add: segment_interpolation_def)
  qed
qed

text \<open>
  Claim C8. For strictly increasing control quantities with as many medians, the function
  returned by \<^verbatim>\<open>prep_bounded_multilinear_median_DV\<close> returns, for a quantity on a segment of
  the control range, the linear interpolation of the two control points of that segment, and
  at a control quantity its median; below the range it returns the first median and above
  the range the last one. The function returned by \<^verbatim>\<open>prep_constant_median_DV\<close> returns the
  same median for every quantity.
\<close>

theorem median_DV_functions:
  assumes "increasing quantities" and "length medians = length quantities"
    and "quantities \<noteq> []"
  shows "(\<forall>i q. Suc i < length quantities \<longrightarrow> quantities ! i \<le> q \<longrightarrow> q \<le> quantities ! Suc i \<longrightarrow>
            prep_bounded_multilinear_median_DV medians quantities (Some q)
              = Inr (segment_interpolation quantities medians i q)) \<and>
         (\<forall>i. i < length quantities \<longrightarrow>
            prep_bounded_multilinear_median_DV medians quantities (Some (quantities ! i))
              = Inr (medians ! i)) \<and>
         (\<forall>q. q < hd quantities \<longrightarrow>
            prep_bounded_multilinear_median_DV medians quantities (Some q) = Inr (hd medians)) \<and>
         (\<forall>q. last quantities < q \<longrightarrow>
            prep_bounded_multilinear_median_DV medians quantities (Some q) = Inr (last medians)) \<and>
         (\<forall>q q'. (prep_constant_median_DV median q :: real) = median \<and>
            prep_constant_median_DV median q = prep_constant_median_DV median q')"
proof (intro conjI allI impI)
  fix i q
  assume "Suc i < length quantities" "quantities ! i \<le> q" "q \<le> quantities ! Suc i"
  then show "prep_bounded_multilinear_median_DV medians quantities (Some q)
              = Inr (segment_interpolation quantities medians i q)"
    using np_interp_segment[OF assms(1,2)]
    by (simp add: prep_bounded_multilinear_median_DV_def)
next
  fix i
  assume "i < length quantities"
  then show "prep_bounded_multilinear_median_DV medians quantities (Some (quantities ! i))
              = Inr (medians ! i)"
    using np_interp_control_point[OF assms(1,2)]
    by (simp add: prep_bounded_multilinear_median_DV_def)
next
  fix q :: real
  assume "q < hd quantities"
  then show "prep_bounded_multilinear_median_DV medians quantities (Some q) = Inr (hd medians)"
    using assms(2,3) by (simp add: prep_bounded_multilinear_median_DV_def np_interp_def)
next
  fix q :: real
  assume q: "last quantities < q"
  have "hd quantities = quantities ! 0" "last quantities = quantities ! (length quantities - 1)"
    using assms(3) by (simp_all add: hd_conv_nth last_conv_nth)
  then have "hd quantities \<le> last quantities"
    using increasing_nth_le[OF assms(1), of 0 "length quantities - 1"] assms(3) by simp
  then have "\<not> q < hd quantities" using q by simp
  then show "prep_bounded_multilinear_median_DV medians quantities (Some q) = Inr (last medians)"
    using assms(2,3) q by (simp add: prep_bounded_multilinear_median_DV_def np_interp_def)
qed (simp_all add: prep_constant_median_DV_def)

theorem median_DV_functions_witness:
  "prep_bounded_multilinear_median_DV [10, 20, 40] [1, 2, 4] (Some 3) = Inr 30 \<and>
   prep_bounded_multilinear_median_DV [10, 20, 40] [1, 2, 4] (Some 0) = Inr 10 \<and>
   prep_bounded_multilinear_median_DV [10, 20, 40] [1, 2, 4] (Some 7) = Inr 40 \<and>
   prep_bounded_multilinear_median_DV [10, 20, 40] [1, 2, 4] (Some 4) = Inr 40"
proof -
  define qs :: "real list" where "qs = [1, 2, 4]"
  define ms :: "real list" where "ms = [10, 20, 40]"
  have a: "increasing qs" "length ms = length qs" "qs \<noteq> []"
    by (simp_all add: qs_def ms_def increasing_def)
  note t = median_DV_functions[OF a, of 0]
  have s: "prep_bounded_multilinear_median_DV ms qs (Some 3)
             = Inr (segment_interpolation qs ms 1 3)"
    using t[THEN conjunct1, rule_format, of 1 3] by (simp add: qs_def)
  have c: "prep_bounded_multilinear_median_DV ms qs (Some (qs ! 2)) = Inr (ms ! 2)"
    using t[THEN conjunct2, THEN conjunct1, rule_format, of 2] by (simp add: qs_def)
  have l: "prep_bounded_multilinear_median_DV ms qs (Some 0) = Inr (hd ms)"
    using t[THEN conjunct2, THEN conjunct2, THEN conjunct1, rule_format, of 0]
    by (simp add: qs_def)
  have r: "prep_bounded_multilinear_median_DV ms qs (Some 7) = Inr (last ms)"
    using t[THEN conjunct2, THEN conjunct2, THEN conjunct2, THEN conjunct1, rule_format, of 7]
    by (simp add: qs_def)
  show ?thesis
    using s c l r unfolding qs_def ms_def segment_interpolation_def by simp
qed

section \<open>Properties of tables with labelled columns\<close>

lemma row_select_cong:
  assumes "\<And>k. k \<in> set ks \<Longrightarrow> P k = Q k"
  shows "row_select P ks row = row_select Q ks row"
proof -
  have "filter (\<lambda>(k, v). P k) (zip ks row) = filter (\<lambda>(k, v). Q k) (zip ks row)"
    by (rule filter_cong) (auto dest: set_zip_leftD simp: assms)
  then show ?thesis by (simp add: row_select_def)
qed

lemma row_select_set: "set (row_select P ks row) \<subseteq> set row"
  by (auto simp: row_select_def dest: set_zip_rightD)

lemma row_select_map:
  "row_select P gs (map f gs) = map f (filter P gs)"
  by (induction gs) (simp_all add: row_select_def)

lemma sum_pairs_disj:
  fixes kvs :: "('k \<times> real) list"
  assumes "\<And>k. \<not> (A k \<and> B k)"
  shows "sum_list (map snd (filter (\<lambda>(k, v). A k \<or> B k) kvs))
           = sum_list (map snd (filter (\<lambda>(k, v). A k) kvs))
             + sum_list (map snd (filter (\<lambda>(k, v). B k) kvs))"
  using assms by (induction kvs) auto

lemma sum_select_disj:
  fixes row :: "real list"
  assumes "\<And>k. \<not> (A k \<and> B k)"
  shows "sum_list (row_select (\<lambda>k. A k \<or> B k) ks row)
           = sum_list (row_select A ks row) + sum_list (row_select B ks row)"
  unfolding row_select_def by (rule sum_pairs_disj) (rule assms)

lemma row_select_False: "row_select (\<lambda>k. False) ks row = []"
  by (simp add: row_select_def)

text \<open>Summing the group sums of distinct groups is summing over the union of the groups.\<close>

lemma sum_groups:
  fixes row :: "real list"
  assumes "distinct gs"
  shows "sum_list (map (\<lambda>g. sum_list (row_select (\<lambda>k. B k \<and> key k = g) ks row)) gs)
           = sum_list (row_select (\<lambda>k. B k \<and> key k \<in> set gs) ks row)"
  using assms
proof (induction gs)
  case Nil
  then show ?case by (simp add: row_select_False)
next
  case (Cons g gs)
  have "sum_list (row_select (\<lambda>k. (B k \<and> key k = g) \<or> (B k \<and> key k \<in> set gs)) ks row)
          = sum_list (row_select (\<lambda>k. B k \<and> key k = g) ks row)
            + sum_list (row_select (\<lambda>k. B k \<and> key k \<in> set gs) ks row)"
    by (rule sum_select_disj) (use Cons.prems in auto)
  moreover have "row_select (\<lambda>k. B k \<and> key k \<in> set (g # gs)) ks row
          = row_select (\<lambda>k. (B k \<and> key k = g) \<or> (B k \<and> key k \<in> set gs)) ks row"
    by (rule row_select_cong) auto
  ultimately show ?case using Cons by simp
qed

lemma sum_list_nonneg_member:
  fixes xs :: "real list"
  assumes "\<And>x. x \<in> set xs \<Longrightarrow> 0 \<le> x" "y \<in> set xs"
  shows "y \<le> sum_list xs"
  using assms
proof (induction xs)
  case Nil
  then show ?case by simp
next
  case (Cons x xs)
  have nn: "0 \<le> sum_list xs" by (rule sum_list_nonneg) (simp add: Cons.prems)
  show ?case
  proof (cases "y = x")
    case True
    then show ?thesis using nn by simp
  next
    case False
    then have "y \<le> sum_list xs" using Cons by simp
    moreover have "0 \<le> x" using Cons.prems by simp
    ultimately show ?thesis by simp
  qed
qed

lemma Max_le_sum_list:
  fixes xs :: "real list"
  assumes "\<And>x. x \<in> set xs \<Longrightarrow> 0 \<le> x" "xs \<noteq> []"
  shows "Max (set xs) \<le> sum_list xs"
proof -
  have "Max (set xs) \<in> set xs" using assms(2) by (intro Max_in) simp_all
  then show ?thesis using sum_list_nonneg_member[OF assms(1)] by blast
qed

lemma groupby_sum_columns:
  "columns (groupby_sum levels F) = sort (remdups (map (project levels) (columns F)))"
  by (simp add: groupby_sum_def Let_def)

lemma groupby_sum_rows:
  "rows (groupby_sum levels F) =
     map (\<lambda>row. map (\<lambda>g. sum_list (row_select (\<lambda>k. project levels k = g) (columns F) row))
                    (sort (remdups (map (project levels) (columns F))))) (rows F)"
  by (simp add: groupby_sum_def Let_def)

lemma wf_frame_label: "wf_frame n F \<Longrightarrow> k \<in> set (columns F) \<Longrightarrow> length k = n"
  by (simp add: wf_frame_def list_all_iff)

lemma wf_frame_row: "wf_frame n F \<Longrightarrow> r < length (rows F) \<Longrightarrow> length (rows F ! r) = length (columns F)"
  by (simp add: wf_frame_def list_all_iff)

text \<open>
  The values of a grouped sample under one first-level label: the sums, group by group,
  of the rows of the sample.
\<close>

lemma getitem0_groupby_sum:
  assumes "list_ex (\<lambda>k. hd (project levels k) = c) (columns F)"
  shows "\<exists>G. getitem0 c (groupby_sum levels F) = Inr G \<and>
             rows G = map (\<lambda>row. map (\<lambda>g. sum_list (row_select (\<lambda>k. project levels k = g) (columns F) row))
                          (filter (\<lambda>g. hd g = c) (sort (remdups (map (project levels) (columns F))))))
                        (rows F)"
proof -
  have "list_ex (\<lambda>k. hd k = c) (columns (groupby_sum levels F))"
    using assms by (auto simp: groupby_sum_columns list_ex_iff)
  then show ?thesis
    by (simp add: getitem0_def groupby_sum_rows groupby_sum_columns row_select_map)
qed

section \<open>Properties of aggregate\_losses\<close>

lemma project_0_4: "length k = 6 \<Longrightarrow> project [0, 4] k = [hd k, k ! 4]"
  by (cases k) (simp_all add: project_def)

lemma convert_to_MultiIndex_agg:
  "convert_to_MultiIndex
     \<lparr>columns = [[''repair_cost''], [''repair_time-parallel''], [''repair_time-sequential'']],
      rows = R\<rparr>
   = \<lparr>columns = [[''repair_cost'', ''''], [''repair_time'', ''parallel''],
                 [''repair_time'', ''sequential'']],
      rows = R\<rparr>"
  by (simp add: convert_to_MultiIndex_def)

text \<open>
  In one realization, the sum of a grouped sample over the groups of one consequence type
  is the sum of all entries of that type, and the group sums are the location totals.
\<close>

lemma group_sums_of_type:
  fixes row :: "real list"
  assumes ks: "\<And>k. k \<in> set ks \<Longrightarrow> length k = 6"
  defines "groups \<equiv> sort (remdups (map (project [0, 4]) ks))"
  defines "gsum \<equiv> (\<lambda>g. sum_list (row_select (\<lambda>k. project [0, 4] k = g) ks row))"
  shows "sum_list (map gsum (filter (\<lambda>g. hd g = dv) groups))
           = sum_list (row_select (\<lambda>k. hd k = dv) ks row)" (is ?A)
    and "sum_list (map (\<lambda>loc. location_total dv loc ks row) (locations_of dv ks))
           = sum_list (row_select (\<lambda>k. hd k = dv) ks row)" (is ?B)
    and "set (map gsum (filter (\<lambda>g. hd g = dv) groups))
           = set (map (\<lambda>loc. location_total dv loc ks row) (locations_of dv ks))" (is ?C)
proof -
  have d: "distinct (filter (\<lambda>g. hd g = dv) groups)"
    by (simp add: groups_def)
  have "sum_list (map (\<lambda>g. sum_list (row_select (\<lambda>k. True \<and> project [0, 4] k = g) ks row))
                      (filter (\<lambda>g. hd g = dv) groups))
        = sum_list (row_select (\<lambda>k. True \<and> project [0, 4] k \<in> set (filter (\<lambda>g. hd g = dv) groups))
                      ks row)"
    by (rule sum_groups[OF d])
  moreover have "row_select (\<lambda>k. True \<and> project [0, 4] k \<in> set (filter (\<lambda>g. hd g = dv) groups))
                      ks row = row_select (\<lambda>k. hd k = dv) ks row"
    by (rule row_select_cong) (auto simp: groups_def project_0_4 ks)
  ultimately show ?A by (simp add: gsum_def)
  have "sum_list (map (\<lambda>g. sum_list (row_select (\<lambda>k. hd k = dv \<and> k ! 4 = g) ks row))
                      (locations_of dv ks))
        = sum_list (row_select (\<lambda>k. hd k = dv \<and> k ! 4 \<in> set (locations_of dv ks)) ks row)"
    by (rule sum_groups) (simp add: locations_of_def)
  moreover have "row_select (\<lambda>k. hd k = dv \<and> k ! 4 \<in> set (locations_of dv ks)) ks row
                   = row_select (\<lambda>k. hd k = dv) ks row"
    by (rule row_select_cong) (auto simp: locations_of_def)
  ultimately show ?B by (simp add: location_total_def)
  have eq: "gsum (project [0, 4] k) = location_total dv (k ! 4) ks row"
    if "k \<in> set ks" "hd k = dv" for k
  proof -
    have "row_select (\<lambda>k'. project [0, 4] k' = project [0, 4] k) ks row
            = row_select (\<lambda>k'. hd k' = dv \<and> k' ! 4 = k ! 4) ks row"
      by (rule row_select_cong) (use that ks in \<open>auto simp: project_0_4\<close>)
    then show ?thesis by (simp add: gsum_def location_total_def)
  qed
  have "set (map gsum (filter (\<lambda>g. hd g = dv) groups))
          = (\<lambda>k. gsum (project [0, 4] k)) ` {k \<in> set ks. hd k = dv}"
    by (auto simp: groups_def project_0_4 ks image_iff)
  also have "\<dots> = (\<lambda>k. location_total dv (k ! 4) ks row) ` {k \<in> set ks. hd k = dv}"
    by (rule image_cong) (auto simp: eq)
  also have "\<dots> = set (map (\<lambda>loc. location_total dv loc ks row) (locations_of dv ks))"
    by (auto simp: locations_of_def image_iff)
  finally show ?C .
qed

text \<open>
  Claim C10. For a consequence sample with six-level column labels, one value per column
  in every row, no negative entry and at least one COST and one TIME column,
  \<^verbatim>\<open>aggregate_losses\<close> returns a table with one row per realization that holds: the repair
  cost, equal to the sum of all COST entries of the realization; the parallel repair time,
  equal to the maximum of the per-location TIME totals; and the sequential repair time,
  equal to the sum of the per-location TIME totals; and the parallel repair time is never
  greater than the sequential one.
\<close>

theorem aggregate_losses_totals:
  assumes wf: "wf_frame 6 DV"
    and nonneg: "list_all (list_all (\<lambda>v. 0 \<le> v)) (rows DV)"
    and cost: "list_ex (\<lambda>k. hd k = ''COST'') (columns DV)"
    and time: "list_ex (\<lambda>k. hd k = ''TIME'') (columns DV)"
  shows "\<exists>agg. aggregate_losses DV = Inr agg \<and>
           columns agg = [[''repair_cost'', ''''], [''repair_time'', ''parallel''],
                          [''repair_time'', ''sequential'']] \<and>
           length (rows agg) = length (rows DV) \<and>
           (\<forall>r < length (rows DV).
              rows agg ! r =
                [sum_list (row_select (\<lambda>k. hd k = ''COST'') (columns DV) (rows DV ! r)),
                 Max (set (map (\<lambda>loc. location_total ''TIME'' loc (columns DV) (rows DV ! r))
                               (locations_of ''TIME'' (columns DV)))),
                 sum_list (map (\<lambda>loc. location_total ''TIME'' loc (columns DV) (rows DV ! r))
                               (locations_of ''TIME'' (columns DV)))] \<and>
              rows agg ! r ! 1 \<le> rows agg ! r ! 2)"
proof -
  define ks where "ks = columns DV"
  define groups where "groups = sort (remdups (map (project [0, 4]) ks))"
  define gsum :: "real list \<Rightarrow> label \<Rightarrow> real" where "gsum = (\<lambda>row g. sum_list (row_select (\<lambda>k. project [0, 4] k = g) ks row))"
  define out where "out = (\<lambda>row::real list.
      [sum_list (map (gsum row) (filter (\<lambda>g. hd g = ''COST'') groups)),
       Max (set (map (gsum row) (filter (\<lambda>g. hd g = ''TIME'') groups))),
       sum_list (map (gsum row) (filter (\<lambda>g. hd g = ''TIME'') groups))])"
  have len: "\<And>k. k \<in> set ks \<Longrightarrow> length k = 6"
    using wf wf_frame_label ks_def by blast
  have no_short: "\<not> list_ex (\<lambda>k. length k < 5) (columns DV)"
    using len by (auto simp: list_ex_iff ks_def)
  have hdp: "\<And>k. k \<in> set ks \<Longrightarrow> hd (project [0, 4] k) = hd k"
    using len by (simp add: project_0_4)
  have c: "list_ex (\<lambda>k. hd (project [0, 4] k) = ''COST'') (columns DV)"
    using cost hdp by (auto simp: list_ex_iff ks_def)
  have t: "list_ex (\<lambda>k. hd (project [0, 4] k) = ''TIME'') (columns DV)"
    using time hdp by (auto simp: list_ex_iff ks_def)
  obtain C where C: "getitem0 ''COST'' (groupby_sum [0, 4] DV) = Inr C"
      "rows C = map (\<lambda>row. map (gsum row) (filter (\<lambda>g. hd g = ''COST'') groups)) (rows DV)"
    using getitem0_groupby_sum[OF c] unfolding gsum_def groups_def ks_def by blast
  obtain T where T: "getitem0 ''TIME'' (groupby_sum [0, 4] DV) = Inr T"
      "rows T = map (\<lambda>row. map (gsum row) (filter (\<lambda>g. hd g = ''TIME'') groups)) (rows DV)"
    using getitem0_groupby_sum[OF t] unfolding gsum_def groups_def ks_def by blast
  have z: "map2 (\<lambda>c t. [sum_list c, Max (set t), sum_list t]) (rows C) (rows T)
             = map out (rows DV)"
    unfolding C(2) T(2) out_def by (simp add: zip_map_map zip_same_conv_map)
  define agg where "agg = \<lparr>columns = [[''repair_cost'', ''''], [''repair_time'', ''parallel''],
                 [''repair_time'', ''sequential'']], rows = map out (rows DV)\<rparr>"
  have res: "aggregate_losses DV = Inr agg"
    unfolding aggregate_losses_def Let_def agg_def
    using no_short C(1) T(1) z by (simp add: convert_to_MultiIndex_agg)
  have row: "rows agg ! r =
                [sum_list (row_select (\<lambda>k. hd k = ''COST'') (columns DV) (rows DV ! r)),
                 Max (set (map (\<lambda>loc. location_total ''TIME'' loc (columns DV) (rows DV ! r))
                               (locations_of ''TIME'' (columns DV)))),
                 sum_list (map (\<lambda>loc. location_total ''TIME'' loc (columns DV) (rows DV ! r))
                               (locations_of ''TIME'' (columns DV)))] \<and>
              rows agg ! r ! 1 \<le> rows agg ! r ! 2"
    if r: "r < length (rows DV)" for r
  proof -
    define row where "row = rows DV ! r"
    have rowin: "row \<in> set (rows DV)" using r row_def by simp
    have nn: "\<And>v. v \<in> set row \<Longrightarrow> 0 \<le> v"
      using nonneg rowin by (auto simp: list_all_iff)
    note g = group_sums_of_type[where ks = ks and row = row, OF len, folded groups_def]
    have a: "sum_list (map (gsum row) (filter (\<lambda>g. hd g = ''COST'') groups))
               = sum_list (row_select (\<lambda>k. hd k = ''COST'') ks row)"
      unfolding gsum_def by (rule g(1))
    have b: "sum_list (map (gsum row) (filter (\<lambda>g. hd g = ''TIME'') groups))
               = sum_list (map (\<lambda>loc. location_total ''TIME'' loc ks row) (locations_of ''TIME'' ks))"
      unfolding gsum_def using g(1)[of "''TIME''"] g(2)[of "''TIME''"] by simp
    have m: "set (map (gsum row) (filter (\<lambda>g. hd g = ''TIME'') groups))
               = set (map (\<lambda>loc. location_total ''TIME'' loc ks row) (locations_of ''TIME'' ks))"
      unfolding gsum_def by (rule g(3))
    have ne: "map (gsum row) (filter (\<lambda>g. hd g = ''TIME'') groups) \<noteq> []"
      using t by (auto simp: groups_def list_ex_iff ks_def filter_empty_conv)
    have gnn: "0 \<le> x" if x: "x \<in> set (map (gsum row) (filter (\<lambda>g. hd g = ''TIME'') groups))" for x
    proof -
      obtain g where "x = gsum row g" using x by auto
      moreover have "0 \<le> gsum row g"
        unfolding gsum_def
      proof (rule sum_list_nonneg)
        fix v assume "v \<in> set (row_select (\<lambda>k. project [0, 4] k = g) ks row)"
        then have "v \<in> set row" by (rule subsetD[OF row_select_set])
        then show "0 \<le> v" by (rule nn)
      qed
      ultimately show ?thesis by simp
    qed
    have le: "Max (set (map (gsum row) (filter (\<lambda>g. hd g = ''TIME'') groups)))
                \<le> sum_list (map (gsum row) (filter (\<lambda>g. hd g = ''TIME'') groups))"
      by (rule Max_le_sum_list[OF gnn ne])
    have o: "out row =
                [sum_list (row_select (\<lambda>k. hd k = ''COST'') ks row),
                 Max (set (map (\<lambda>loc. location_total ''TIME'' loc ks row) (locations_of ''TIME'' ks))),
                 sum_list (map (\<lambda>loc. location_total ''TIME'' loc ks row) (locations_of ''TIME'' ks))]"
      unfolding out_def by (simp only: a b m)
    have le': "Max (set (map (\<lambda>loc. location_total ''TIME'' loc ks row) (locations_of ''TIME'' ks)))
                 \<le> sum_list (map (\<lambda>loc. location_total ''TIME'' loc ks row) (locations_of ''TIME'' ks))"
      using le by (simp only: b m)
    have ra: "rows agg ! r = out row"
      using r by (simp add: agg_def row_def)
    have "out row ! 1 \<le> out row ! 2"
      unfolding o using le' by simp
    then show ?thesis
      unfolding ra o unfolding row_def ks_def by simp
  qed
  have cols: "columns agg = [[''repair_cost'', ''''], [''repair_time'', ''parallel''],
                          [''repair_time'', ''sequential'']]"
    by (simp add: agg_def)
  have n: "length (rows agg) = length (rows DV)"
    by (simp add: agg_def)
  show ?thesis
    using res cols n row by blast
qed

theorem aggregate_losses_totals_witness:
  "aggregate_losses example_DV_sample =
     Inr \<lparr>columns = [[''repair_cost'', ''''], [''repair_time'', ''parallel''],
                     [''repair_time'', ''sequential'']],
          rows = [[7, 6, 11], [107, 50, 61]]\<rparr>"
proof -
  have wf: "wf_frame 6 example_DV_sample"
    by (simp add: wf_frame_def example_DV_sample_def)
  have nn: "list_all (list_all (\<lambda>v. 0 \<le> v)) (rows example_DV_sample)"
    by (simp add: example_DV_sample_def)
  have c: "list_ex (\<lambda>k. hd k = ''COST'') (columns example_DV_sample)"
    by (simp add: example_DV_sample_def)
  have t: "list_ex (\<lambda>k. hd k = ''TIME'') (columns example_DV_sample)"
    by (simp add: example_DV_sample_def)
  obtain agg where agg: "aggregate_losses example_DV_sample = Inr agg"
    and cols: "columns agg = [[''repair_cost'', ''''], [''repair_time'', ''parallel''],
                          [''repair_time'', ''sequential'']]"
    and n: "length (rows agg) = length (rows example_DV_sample)"
    and r: "\<And>r. r < length (rows example_DV_sample) \<Longrightarrow> rows agg ! r =
                [sum_list (row_select (\<lambda>k. hd k = ''COST'') (columns example_DV_sample)
                     (rows example_DV_sample ! r)),
                 Max (set (map (\<lambda>loc. location_total ''TIME'' loc (columns example_DV_sample)
                                   (rows example_DV_sample ! r))
                               (locations_of ''TIME'' (columns example_DV_sample)))),
                 sum_list (map (\<lambda>loc. location_total ''TIME'' loc (columns example_DV_sample)
                                   (rows example_DV_sample ! r))
                               (locations_of ''TIME'' (columns example_DV_sample)))]"
    using aggregate_losses_totals[OF wf nn c t] by blast
  have l: "length (rows agg) = 2" using n by (simp add: example_DV_sample_def)
  have r0: "rows agg ! 0 = [7, 6, 11]"
    using r[of 0]
    by (simp add: example_DV_sample_def row_select_def location_total_def locations_of_def)
  have r1: "rows agg ! 1 = [107, 50, 61]"
    using r[of 1]
    by (simp add: example_DV_sample_def row_select_def location_total_def locations_of_def)
  have "rows agg = [rows agg ! 0, rows agg ! 1]"
    using l by (auto simp: list_eq_iff_nth_eq less_Suc_eq numeral_2_eq_2)
  then have "rows agg = [[7, 6, 11], [107, 50, 61]]" using r0 r1 by simp
  then have "agg = \<lparr>columns = [[''repair_cost'', ''''], [''repair_time'', ''parallel''],
                     [''repair_time'', ''sequential'']],
          rows = [[7, 6, 11], [107, 50, 61]]\<rparr>"
    using cols by (cases agg) simp
  then show ?thesis using agg by simp
qed

section \<open>Properties of the replacement override\<close>

lemma those_map_Some: "those (map (\<lambda>x. Some (f x)) xs) = Some (map f xs)"
  by (induction xs) simp_all

lemma getcol_groupby_sum:
  assumes "g \<in> set (columns (groupby_sum levels F))"
  shows "getcol g (groupby_sum levels F)
           = Inr (map (\<lambda>row. sum_list (row_select (\<lambda>k. project levels k = g) (columns F) row))
                      (rows F))"
proof -
  define gs where "gs = sort (remdups (map (project levels) (columns F)))"
  have g: "g \<in> set gs" using assms by (simp add: groupby_sum_columns gs_def)
  have "map (\<lambda>row. map_of (zip (columns (groupby_sum levels F)) row) g) (rows (groupby_sum levels F))
          = map (\<lambda>row. Some (sum_list (row_select (\<lambda>k. project levels k = g) (columns F) row)))
                (rows F)"
    using g by (simp add: groupby_sum_columns groupby_sum_rows gs_def[symmetric] map_of_zip_map)
  then show ?thesis
    using assms by (simp add: getcol_def those_map_Some)
qed

lemma bex_eq_commute: "(\<exists>x\<in>A. c = f x) = (\<exists>x\<in>A. f x = c)"
  by auto

lemma loc_assign_columns: "columns (loc_assign msk P v F) = columns F"
  by (simp add: loc_assign_def)

lemma loc_assign_rows_map:
  "rows (loc_assign (map c (rows F)) P v F)
     = map (\<lambda>row. if c row then map2 (\<lambda>k x. if P k then v else x) (columns F) row else row)
           (rows F)"
  by (simp add: loc_assign_def zip_map1 zip_same_conv_map)

text \<open>
  Claim C4. For a consequence sample with six-level column labels and one value per column
  in every row, the override succeeds and keeps the columns and the number of rows; in a
  realization where the sample has a \<^verbatim>\<open>'replacement'\<close> consequence and the sum of its entries
  is positive, every entry whose location is not \<^verbatim>\<open>'0'\<close> becomes 0 and every entry at
  location \<^verbatim>\<open>'0'\<close> is kept; every other realization is left unchanged.
\<close>

theorem replacement_override_zeroes:
  assumes wf: "wf_frame 6 S"
  shows "\<exists>S'. replacement_override S = Inr S' \<and> columns S' = columns S \<and>
           length (rows S') = length (rows S) \<and>
           (\<forall>r < length (rows S). \<forall>j < length (columns S).
              rows S' ! r ! j =
                (if list_ex (\<lambda>k. k ! 1 = ''replacement'') (columns S) \<and>
                    0 < sum_list (row_select (\<lambda>k. k ! 1 = ''replacement'') (columns S) (rows S ! r)) \<and>
                    columns S ! j ! 4 \<noteq> ''0''
                 then 0 else rows S ! r ! j))"
proof -
  define ks where "ks = columns S"
  define locs where "locs = filter (\<lambda>l. l \<noteq> ''0'') (remdups (map (\<lambda>k. k ! 4) ks))"
  define total :: "real list \<Rightarrow> real" where
    "total = (\<lambda>row. sum_list (row_select (\<lambda>k. k ! 1 = ''replacement'') ks row))"
  have len: "\<And>k. k \<in> set ks \<Longrightarrow> length k = 6"
    using wf wf_frame_label ks_def by blast
  have no_short: "\<not> list_ex (\<lambda>k. length k < 5) (columns S)"
    using len by (auto simp: list_ex_iff ks_def)
  have mem: "[''replacement''] \<in> set (columns (groupby_sum [1] S))
               \<longleftrightarrow> list_ex (\<lambda>k. k ! 1 = ''replacement'') ks"
    by (simp add: groupby_sum_columns project_def list_ex_iff ks_def image_iff bex_eq_commute)
  have inlocs: "ks ! j ! 4 \<in> set locs \<longleftrightarrow> ks ! j ! 4 \<noteq> ''0''" if "j < length ks" for j
    using that by (auto simp: locs_def)
  show ?thesis
  proof (cases "list_ex (\<lambda>k. k ! 1 = ''replacement'') ks")
    case False
    then have "replacement_override S = Inr S"
      using no_short mem by (simp add: replacement_override_def Let_def)
    then show ?thesis using False by (simp add: ks_def)
  next
    case True
    have col: "getcol [''replacement''] (groupby_sum [1] S) = Inr (map total (rows S))"
      using getcol_groupby_sum[of "[''replacement'']" "[1]" S] mem True
      by (simp add: project_def total_def ks_def)
    define S' where "S' = loc_assign (map (\<lambda>row. 0 < total row) (rows S)) (\<lambda>k. k ! 4 \<in> set locs) 0 S"
    have res: "replacement_override S = Inr S'"
      using no_short mem True col
      by (simp add: replacement_override_def Let_def S'_def locs_def ks_def comp_def)
    have rws: "rows S' = map (\<lambda>row. if 0 < total row
                                then map2 (\<lambda>k x. if k ! 4 \<in> set locs then 0 else x) ks row
                                else row) (rows S)"
      unfolding S'_def ks_def by (rule loc_assign_rows_map)
    have cell: "rows S' ! r ! j =
                 (if 0 < total (rows S ! r) \<and> ks ! j ! 4 \<noteq> ''0'' then 0 else rows S ! r ! j)"
      if r: "r < length (rows S)" and j: "j < length ks" for r j
    proof -
      have l: "length (rows S ! r) = length ks"
        using wf_frame_row[OF wf r] by (simp add: ks_def)
      have n0: "''0'' \<notin> set locs" by (simp add: locs_def)
      show ?thesis
        using r j l inlocs[OF j] n0 by (auto simp: rws)
    qed
    have "columns S' = columns S"
      by (simp add: S'_def loc_assign_columns)
    moreover have "length (rows S') = length (rows S)"
      unfolding rws by simp
    ultimately have "columns S' = columns S" "length (rows S') = length (rows S)"
      by simp_all
    then show ?thesis
      using res cell True unfolding total_def ks_def by auto
  qed
qed

theorem replacement_override_zeroes_witness:
  "\<exists>S'. replacement_override example_DV_sample = Inr S' \<and>
        rows S' ! 1 ! 0 = 100 \<and> rows S' ! 1 ! 1 = 0 \<and> rows S' ! 1 ! 3 = 50 \<and>
        rows S' ! 0 ! 1 = 3"
proof -
  have wf: "wf_frame 6 example_DV_sample"
    by (simp add: wf_frame_def example_DV_sample_def)
  obtain S' where S': "replacement_override example_DV_sample = Inr S'"
    and c: "\<And>r j. r < length (rows example_DV_sample) \<Longrightarrow> j < length (columns example_DV_sample) \<Longrightarrow>
              rows S' ! r ! j =
                (if list_ex (\<lambda>k. k ! 1 = ''replacement'') (columns example_DV_sample) \<and>
                    0 < sum_list (row_select (\<lambda>k. k ! 1 = ''replacement'')
                          (columns example_DV_sample) (rows example_DV_sample ! r)) \<and>
                    columns example_DV_sample ! j ! 4 \<noteq> ''0''
                 then 0 else rows example_DV_sample ! r ! j)"
    using replacement_override_zeroes[OF wf] by blast
  have "rows S' ! 1 ! 0 = 100"
    using c[of 1 0] by (simp add: example_DV_sample_def row_select_def)
  moreover have "rows S' ! 1 ! 1 = 0"
    using c[of 1 1] by (simp add: example_DV_sample_def row_select_def)
  moreover have "rows S' ! 1 ! 3 = 50"
    using c[of 1 3] by (simp add: example_DV_sample_def row_select_def)
  moreover have "rows S' ! 0 ! 1 = 3"
    using c[of 0 1] by (simp add: example_DV_sample_def row_select_def)
  ultimately show ?thesis using S' by blast
qed

section \<open>Properties of the demand lookup\<close>

text \<open>
  Claim C7. For a performance group (component, location, direction) whose component is
  registered as non-directional, \<^verbatim>\<open>get_required_demand_type\<close> asks for the component's
  demand type at the location obtained by adding the component's offset and the optional
  global offset of the demand type to the location of the group, with direction \<^verbatim>\<open>'0'\<close>;
  for such a request, when the demand sample has a column at that type and location,
  \<^verbatim>\<open>_assemble_required_demand_data\<close> returns in every realization the maximum of the demands
  over all directions at that type and location, times the multiplier of the options; and
  with the default options the multiplier is 1.2.
\<close>

theorem nondirectional_demand_is_scaled_max:
  assumes "DP cmp = Some p" and "\<not> Directional p"
    and "parse_demand_type (Type p) = Inr (demand_type, EDP_type)"
    and "py_int loc = Inr l"
  shows "get_required_demand_type DP opts [cmp, loc, dir]
           = Inr [EDP_type, py_str (l + Offset p + global_offset opts demand_type), ''0''] \<and>
         (\<forall>demand_source location m.
            list_ex (\<lambda>k. k ! 0 = EDP_type \<and> k ! 1 = location) (columns demand_source) \<longrightarrow>
            nondir_multi opts EDP_type = Inr m \<longrightarrow>
            assemble_required_demand_data demand_source opts [EDP_type, location, ''0'']
              = ([], Inr (Some (map (\<lambda>row. max_over_directions EDP_type location
                                             (columns demand_source) row * m)
                                   (rows demand_source))))) \<and>
         nondir_multi default_options EDP_type = Inr (12 / 10)"
proof (intro conjI allI impI)
  show "get_required_demand_type DP opts [cmp, loc, dir]
           = Inr [EDP_type, py_str (l + Offset p + global_offset opts demand_type), ''0'']"
    using assms
    by (simp add: get_required_demand_type_def global_offset_def Let_def add.assoc
        split: option.splits)
next
  fix demand_source :: "real frame" and location m
  assume "list_ex (\<lambda>k. k ! 0 = EDP_type \<and> k ! 1 = location) (columns demand_source)"
    and "nondir_multi opts EDP_type = Inr m"
  then show "assemble_required_demand_data demand_source opts [EDP_type, location, ''0'']
              = ([], Inr (Some (map (\<lambda>row. max_over_directions EDP_type location
                                             (columns demand_source) row * m)
                                   (rows demand_source))))"
    by (simp add: assemble_required_demand_data_def nondirectional_demand_def
        max_over_directions_def Let_def comp_def)
next
  show "nondir_multi default_options EDP_type = Inr (12 / 10)"
    by (simp add: nondir_multi_def default_options_def)
qed

theorem nondirectional_demand_is_scaled_max_witness:
  "get_required_demand_type example_DP example_options [''B.10'', ''3'', ''1'']
     = Inr [''PFA'', ''5'', ''0''] \<and>
   assemble_required_demand_data example_demand example_options [''PFA'', ''5'', ''0'']
     = ([], Inr (Some [6 / 10, 24 / 10]))"
proof -
  define p where "p = \<lparr>Directional = False, Offset = 1, Type = ''Peak Floor Acceleration''\<rparr>"
  have a: "example_DP ''B.10'' = Some p" "\<not> Directional p"
    by (simp_all add: example_DP_def p_def)
  have b: "parse_demand_type (Type p) = Inr (''PFA'', ''PFA'')"
    unfolding p_def by code_simp
  have c: "py_int ''3'' = Inr 3"
    by code_simp
  note t = nondirectional_demand_is_scaled_max[where DP = example_DP and cmp = "''B.10''"
      and opts = example_options and dir = "''1''", OF a b c]
  have g: "py_str (3 + Offset p + global_offset example_options ''PFA'') = ''5''"
    unfolding p_def by code_simp
  have m: "nondir_multi example_options ''PFA'' = Inr (12 / 10)"
    by (simp add: nondir_multi_def example_options_def default_options_def)
  have e: "list_ex (\<lambda>k. k ! 0 = ''PFA'' \<and> k ! 1 = ''5'') (columns example_demand)"
    by (simp add: example_demand_def)
  have r: "map (\<lambda>row. max_over_directions ''PFA'' ''5'' (columns example_demand) row * (12 / 10))
              (rows example_demand) = [6 / 10, 24 / 10]"
  proof -
    have s: "row_select (\<lambda>k. k ! 0 = ''PFA'' \<and> k ! Suc 0 = ''5'')
               [[''PFA'', ''5'', ''1''], [''PFA'', ''5'', ''2''], [''PFA'', ''4'', ''1'']] [a, b, c]
               = [a, b]" for a b c :: real
      by (simp add: row_select_def)
    show ?thesis
      by (simp add: max_over_directions_def example_demand_def s)
  qed
  show ?thesis
    using t[THEN conjunct1] t[THEN conjunct2, THEN conjunct1, rule_format, OF e m] g r
    by simp
qed

section \<open>The damage states at ten limit states\<close>

text \<open>
  Claim C1 at a block with ten limit states. The capacities 1, 2, ..., 10 are all below the
  demand 100 and limit state \<open>i\<close> picks damage state \<open>i\<close>, so the claim asks for damage
  state 10, the pick of the highest-numbered exceeded limit state. The columns of the
  capacity sample are sorted as strings, which puts limit state \<^verbatim>\<open>'10'\<close> between \<^verbatim>\<open>'1'\<close> and
  \<^verbatim>\<open>'2'\<close>; limit state 9 is evaluated last and the block gets damage state 9.
\<close>

theorem ten_limit_states_damage_state:
  "damage_states (Some [100]) ten_ls_capacity ten_ls_lsds
     = Inr \<lparr>columns = [[''A'', ''1'', ''1'', ''1'']], rows = [[9]]\<rparr>"
  by code_simp

text \<open>
  With up to nine limit states the order of the strings is the order of the numbers: in
  the three realizations of the example with demand 4 the block gets the pick of limit
  state 3 (capacities 1, 2, 3), again the pick of limit state 3 although limit state 2 is
  not exceeded (capacities 1, 5, 3), and damage state 0 (capacities 7, 8, 9).
\<close>

lemma three_limit_states_damage_state:
  "damage_states (Some [4, 4, 4]) three_ls_capacity three_ls_lsds
     = Inr \<lparr>columns = [[''A'', ''1'', ''1'', ''1'']], rows = [[3], [4], [0]]\<rparr>"
  by code_simp

section \<open>The damage calculation without the demand that a performance group needs\<close>

text \<open>
  Claim C2 at an asset whose first performance group is directional and needs a demand
  (PID at location 1, direction 1) that the demand sample does not have, and whose second
  performance group has its demand. The claim asks for a warning, for the first group to be
  left out and for the second group to be calculated. The lookup of a directional demand
  is not guarded: the calculation ends with KeyError and logs nothing.
\<close>

theorem missing_directional_demand_is_fatal:
  "calculate_qnt_sample (example_model [[''C.20'', ''1'', ''1''], [''B.10'', ''3'', ''1'']])
     = ([], Inl KeyError)"
  by code_simp

text \<open>
  The second group alone is calculated. When the group without demand is non-directional
  (B.10 at location 1 needs PFA at location 3), the warning is logged, but the group is not
  left out: its demand \<^verbatim>\<open>None\<close> goes on to \<^verbatim>\<open>_evaluate_damage_state\<close>, where the subtraction
  fails.
\<close>

lemma available_demand_is_calculated:
  "calculate_qnt_sample (example_model [[''B.10'', ''3'', ''1'']])
     = ([], Inr \<lparr>columns = [[''B.10'', ''3'', ''1'', ''1'']], rows = [[10], [10]]\<rparr>)"
  by code_simp

lemma missing_nondirectional_demand_is_fatal:
  "calculate_qnt_sample (example_model [[''B.10'', ''1'', ''1''], [''B.10'', ''3'', ''1'']])
     = ([WARNING_Cannot_find_demand_data [''PFA'', ''3'', ''0'']], Inl TypeError)"
  by code_simp

section \<open>The median consequences without pooling\<close>

text \<open>
  Claim C5 with both economies-of-scale options off, for component A damaged at locations
  1 and 2. The claim asks for one median per (loss component, damage state, location), here
  the columns (0, 1, 1) and (0, 1, 2). The pooled quantities have the levels (component,
  location, damage state), but \<^verbatim>\<open>_calc_median_consequence\<close> reads the level after the
  component as the damage state: it looks the damage state id 1 up among the locations,
  takes the columns of location 1, one per damage state found there (0 and 1), and labels
  them as (component, damage state, location). The table has a column for a location 0,
  which the asset does not have, and none for location 2.
\<close>

theorem medians_without_pooling:
  "median_consequences example_loss_model \<lparr>AcrossFloors = False, AcrossDamageStates = False\<rparr>
     example_dmg_quantities
   = Inr [(''COST'', [''cmp'', ''ds'', ''loc''],
           \<lparr>columns = [[''0'', ''1'', ''0''], [''0'', ''1'', ''1'']], rows = [[100, 100]]\<rparr>)]"
  by code_simp

text \<open>
  At the same input the other three settings give what the claim says: one column per
  (loss component, damage state) when pooling across floors, and one per (loss component,
  damage state, location) when pooling across damage states only.
\<close>

lemma medians_across_floors:
  "median_consequences example_loss_model \<lparr>AcrossFloors = True, AcrossDamageStates = False\<rparr>
     example_dmg_quantities
   = Inr [(''COST'', [''cmp'', ''ds''], \<lparr>columns = [[''0'', ''1'']], rows = [[100]]\<rparr>)]"
  by code_simp

lemma medians_across_floors_and_damage_states:
  "median_consequences example_loss_model \<lparr>AcrossFloors = True, AcrossDamageStates = True\<rparr>
     example_dmg_quantities
   = Inr [(''COST'', [''cmp'', ''ds''], \<lparr>columns = [[''0'', ''1'']], rows = [[100]]\<rparr>)]"
  by code_simp

lemma medians_across_damage_states:
  "median_consequences example_loss_model \<lparr>AcrossFloors = False, AcrossDamageStates = True\<rparr>
     example_dmg_quantities
   = Inr [(''COST'', [''cmp'', ''ds'', ''loc''],
           \<lparr>columns = [[''0'', ''1'', ''1''], [''0'', ''1'', ''2'']], rows = [[100, 100]]\<rparr>)]"
  by code_simp

section \<open>Properties of \_create\_dmg\_RVs\<close>

lemma limit_state_is_defined_always: "limit_state_is_defined theta_0"
  by (simp add: limit_state_is_defined_def py_invert_bool_def)

lemma add_RV_Inr:
  assumes "add_RV rv reg = Inr reg'"
  shows "RV reg' = RV reg @ [rv]" "RV_set reg' = RV_set reg" "name rv \<notin> set (map name (RV reg))"
  using assms by (auto simp: add_RV_def split: if_splits)

lemma add_RV_set_Inr:
  assumes "add_RV_set s reg = Inr reg'"
  shows "RV reg' = RV reg" "RV_set reg' = RV_set reg @ [s]"
  using assms by (auto simp: add_RV_set_def split: if_splits)

text \<open>
  One limit state that is not a damage function adds one capacity variable under the name
  of the block and the limit state, which was not registered before, and appends that
  name to the names collected for the set of the block.
\<close>

lemma limit_state_step_fragility:
  assumes step: "limit_state_step PG frg n b ls st = Inr st'"
    and nf: "map_of frg (''LS'' @ ls, ''Family'') \<noteq> Some (Str ''function'')"
  shows "\<exists>rv. name rv = rv_tag ''FRG'' PG (b + 1) ls \<and>
           RV (capacity_RV_reg st') = RV (capacity_RV_reg st) @ [rv] \<and>
           RV_set (capacity_RV_reg st') = RV_set (capacity_RV_reg st) \<and>
           frg_rv_set_tags st' = frg_rv_set_tags st @ [rv_tag ''FRG'' PG (b + 1) ls] \<and>
           rv_tag ''FRG'' PG (b + 1) ls \<notin> set (map name (RV (capacity_RV_reg st)))"
proof -
  obtain theta_0 where t0: "frg_loc frg (''LS'' @ ls, ''Theta_0'') = Inr theta_0"
    using step by (cases "frg_loc frg (''LS'' @ ls, ''Theta_0'')") (simp_all add: limit_state_step_def)
  obtain family where fa: "frg_loc frg (''LS'' @ ls, ''Family'') = Inr family"
    using step t0
    by (cases "frg_loc frg (''LS'' @ ls, ''Family'')")
       (simp_all add: limit_state_step_def limit_state_is_defined_always)
  obtain theta_1 where t1: "frg_loc frg (''LS'' @ ls, ''Theta_1'') = Inr theta_1"
    using step t0 fa
    by (cases "frg_loc frg (''LS'' @ ls, ''Theta_1'')")
       (simp_all add: limit_state_step_def limit_state_is_defined_always)
  obtain ds_weights where dw: "frg_loc frg (''LS'' @ ls, ''DamageStateWeights'') = Inr ds_weights"
    using step t0 fa t1
    by (cases "frg_loc frg (''LS'' @ ls, ''DamageStateWeights'')")
       (simp_all add: limit_state_step_def limit_state_is_defined_always)
  have nfun: "family \<noteq> Str ''function''"
    using fa nf by (auto simp: frg_loc_def split: option.splits)
  show ?thesis
    using step t0 fa t1 dw nfun
    by (auto simp: limit_state_step_def limit_state_is_defined_always Let_def add_RV_def
        split: sum.splits if_splits cell.splits prod.splits)
qed

lemma limit_state_loop_fragility:
  assumes "limit_state_loop PG frg n b lss st = Inr st'"
    and "list_all (\<lambda>ls. map_of frg (''LS'' @ ls, ''Family'') \<noteq> Some (Str ''function'')) lss"
  shows "map name (RV (capacity_RV_reg st'))
           = map name (RV (capacity_RV_reg st)) @ map (rv_tag ''FRG'' PG (b + 1)) lss \<and>
         RV_set (capacity_RV_reg st') = RV_set (capacity_RV_reg st) \<and>
         frg_rv_set_tags st' = frg_rv_set_tags st @ map (rv_tag ''FRG'' PG (b + 1)) lss \<and>
         (distinct (map name (RV (capacity_RV_reg st)))
            \<longrightarrow> distinct (map name (RV (capacity_RV_reg st'))))"
  using assms
proof (induction lss arbitrary: st)
  case Nil
  then show ?case by simp
next
  case (Cons ls lss)
  obtain st1 where s1: "limit_state_step PG frg n b ls st = Inr st1"
    and rest: "limit_state_loop PG frg n b lss st1 = Inr st'"
    using Cons.prems(1) by (cases "limit_state_step PG frg n b ls st") simp_all
  obtain rv where rv: "name rv = rv_tag ''FRG'' PG (b + 1) ls"
      "RV (capacity_RV_reg st1) = RV (capacity_RV_reg st) @ [rv]"
      "RV_set (capacity_RV_reg st1) = RV_set (capacity_RV_reg st)"
      "frg_rv_set_tags st1 = frg_rv_set_tags st @ [rv_tag ''FRG'' PG (b + 1) ls]"
      "rv_tag ''FRG'' PG (b + 1) ls \<notin> set (map name (RV (capacity_RV_reg st)))"
    using limit_state_step_fragility[OF s1] Cons.prems(2) by auto
  have nf: "list_all (\<lambda>ls. map_of frg (''LS'' @ ls, ''Family'') \<noteq> Some (Str ''function'')) lss"
    using Cons.prems(2) by simp
  note ih = Cons.IH[OF rest nf]
  have a: "map name (RV (capacity_RV_reg st'))
           = map name (RV (capacity_RV_reg st)) @ map (rv_tag ''FRG'' PG (b + 1)) (ls # lss)"
    using ih[THEN conjunct1] rv(1,2) by simp
  have b: "RV_set (capacity_RV_reg st') = RV_set (capacity_RV_reg st)"
    using ih[THEN conjunct2, THEN conjunct1] rv(3) by simp
  have c: "frg_rv_set_tags st' = frg_rv_set_tags st @ map (rv_tag ''FRG'' PG (b + 1)) (ls # lss)"
    using ih[THEN conjunct2, THEN conjunct2, THEN conjunct1] rv(4) by simp
  have d1: "distinct (map name (RV (capacity_RV_reg st1)))"
    if "distinct (map name (RV (capacity_RV_reg st)))"
    using that rv(1,2,5) by simp
  have d: "distinct (map name (RV (capacity_RV_reg st)))
             \<longrightarrow> distinct (map name (RV (capacity_RV_reg st')))"
    using d1 ih[THEN conjunct2, THEN conjunct2, THEN conjunct2] by blast
  show ?case
    using a b c d by blast
qed

text \<open>The set that the iteration of a block registers.\<close>

lemma block_step_fragility:
  assumes step: "block_step PG frg lss b st = Inr st'"
    and nf: "list_all (\<lambda>ls. map_of frg (''LS'' @ ls, ''Family'') \<noteq> Some (Str ''function'')) lss"
  shows "map name (RV (capacity_RV_reg st'))
           = map name (RV (capacity_RV_reg st)) @ map (rv_tag ''FRG'' PG (b + 1)) lss \<and>
         RV_set (capacity_RV_reg st')
           = RV_set (capacity_RV_reg st) @
             (if lss = [] then []
              else [\<lparr>set_name = rv_set_tag PG (b + 1),
                     members = map (rv_tag ''FRG'' PG (b + 1)) lss,
                     Rho = ones (length lss)\<rparr>]) \<and>
         (distinct (map name (RV (capacity_RV_reg st)))
            \<longrightarrow> distinct (map name (RV (capacity_RV_reg st'))))"
proof -
  define st0 where "st0 = st\<lparr>ds_id := 0, frg_rv_set_tags := []\<rparr>"
  obtain st1 where l: "limit_state_loop PG frg (length lss) b lss st0 = Inr st1"
    using step unfolding block_step_def st0_def
    by (cases "limit_state_loop PG frg (length lss) b lss (st\<lparr>ds_id := 0, frg_rv_set_tags := []\<rparr>)")
       simp_all
  note ll = limit_state_loop_fragility[OF l nf]
  have f: "map name (RV (capacity_RV_reg st1))
           = map name (RV (capacity_RV_reg st)) @ map (rv_tag ''FRG'' PG (b + 1)) lss"
      "RV_set (capacity_RV_reg st1) = RV_set (capacity_RV_reg st)"
      "frg_rv_set_tags st1 = map (rv_tag ''FRG'' PG (b + 1)) lss"
    using ll[THEN conjunct1] ll[THEN conjunct2, THEN conjunct1]
      ll[THEN conjunct2, THEN conjunct2, THEN conjunct1] by (simp_all add: st0_def)
  have fd: "distinct (map name (RV (capacity_RV_reg st)))
            \<longrightarrow> distinct (map name (RV (capacity_RV_reg st1)))"
    using ll[THEN conjunct2, THEN conjunct2, THEN conjunct2] by (simp only: st0_def) simp
  show ?thesis
  proof (cases "lss = []")
    case True
    then have "st' = st1"
      using step l f(3) unfolding block_step_def st0_def[symmetric] by simp
    then show ?thesis using f(1,2) fd True by simp
  next
    case False
    then obtain cap where cap: "add_RV_set \<lparr>set_name = rv_set_tag PG (b + 1),
                                 members = frg_rv_set_tags st1,
                                 Rho = ones (length (frg_rv_set_tags st1))\<rparr>
                       (capacity_RV_reg st1) = Inr cap" and st': "st' = st1\<lparr>capacity_RV_reg := cap\<rparr>"
      using step l f(3) unfolding block_step_def st0_def[symmetric]
      by (cases "add_RV_set \<lparr>set_name = rv_set_tag PG (b + 1),
                                 members = frg_rv_set_tags st1,
                                 Rho = ones (length (frg_rv_set_tags st1))\<rparr>
                       (capacity_RV_reg st1)") auto
    have "RV (capacity_RV_reg st') = RV (capacity_RV_reg st1)"
      using add_RV_set_Inr(1)[OF cap] by (simp add: st')
    moreover have "RV_set (capacity_RV_reg st')
           = RV_set (capacity_RV_reg st) @
              [\<lparr>set_name = rv_set_tag PG (b + 1),
                     members = map (rv_tag ''FRG'' PG (b + 1)) lss,
                     Rho = ones (length lss)\<rparr>]"
      using add_RV_set_Inr(2)[OF cap] f(2,3) by (simp add: st')
    ultimately show ?thesis
      using f(1) fd False by simp
  qed
qed

lemma block_loop_fragility:
  assumes "block_loop PG frg lss bs st = Inr st'"
    and nf: "list_all (\<lambda>ls. map_of frg (''LS'' @ ls, ''Family'') \<noteq> Some (Str ''function'')) lss"
  shows "map name (RV (capacity_RV_reg st'))
           = map name (RV (capacity_RV_reg st)) @
             concat (map (\<lambda>b. map (rv_tag ''FRG'' PG (b + 1)) lss) bs) \<and>
         RV_set (capacity_RV_reg st')
           = RV_set (capacity_RV_reg st) @
             (if lss = [] then []
              else map (\<lambda>b. \<lparr>set_name = rv_set_tag PG (b + 1),
                             members = map (rv_tag ''FRG'' PG (b + 1)) lss,
                             Rho = ones (length lss)\<rparr>) bs) \<and>
         (distinct (map name (RV (capacity_RV_reg st)))
            \<longrightarrow> distinct (map name (RV (capacity_RV_reg st'))))"
  using assms(1)
proof (induction bs arbitrary: st)
  case Nil
  then show ?case by simp
next
  case (Cons b bs)
  obtain st1 where s1: "block_step PG frg lss b st = Inr st1"
    and rest: "block_loop PG frg lss bs st1 = Inr st'"
    using Cons.prems by (cases "block_step PG frg lss b st") simp_all
  note bs = block_step_fragility[OF s1 nf]
  note ih = Cons.IH[OF rest]
  have a: "map name (RV (capacity_RV_reg st'))
           = map name (RV (capacity_RV_reg st)) @
             concat (map (\<lambda>b. map (rv_tag ''FRG'' PG (b + 1)) lss) (b # bs))"
    using ih[THEN conjunct1] bs[THEN conjunct1] by simp
  have c: "RV_set (capacity_RV_reg st')
           = RV_set (capacity_RV_reg st) @
             (if lss = [] then []
              else map (\<lambda>b. \<lparr>set_name = rv_set_tag PG (b + 1),
                             members = map (rv_tag ''FRG'' PG (b + 1)) lss,
                             Rho = ones (length lss)\<rparr>) (b # bs))"
    using ih[THEN conjunct2, THEN conjunct1] bs[THEN conjunct2, THEN conjunct1] by simp
  have d: "distinct (map name (RV (capacity_RV_reg st)))
            \<longrightarrow> distinct (map name (RV (capacity_RV_reg st')))"
    using ih[THEN conjunct2, THEN conjunct2] bs[THEN conjunct2, THEN conjunct2] by blast
  show ?case
    using a c d by blast
qed
text \<open>
  Claim C6. When \<^verbatim>\<open>_create_dmg_RVs\<close> returns for a performance group whose component has
  no limit state defined by a damage function, the sets of its capacity registry are, block
  by block, one set per block, named after the block, whose members are the capacity
  variables of all limit states of that block and whose correlation matrix is the square
  matrix of ones of that size; the capacity variables of the registry are exactly the
  members of these sets, each in one set only, whatever the families, parameters and
  weights in the table are. (A component without limit states gets no variable and no
  set.)
\<close>

theorem create_dmg_RVs_block_sets:
  assumes "create_dmg_RVs damage_table n_blocks PG = Inr (cap, lsds)"
    and "damage_table (PG ! 0) = Some frg"
    and "fragility_only frg"
  shows "RV_set cap =
           (if limit_states_of frg = [] then []
            else map (\<lambda>block_i. \<lparr>set_name = rv_set_tag PG (block_i + 1),
                                  members = map (rv_tag ''FRG'' PG (block_i + 1)) (limit_states_of frg),
                                  Rho = ones (length (limit_states_of frg))\<rparr>)
                     [0..<n_blocks]) \<and>
         list_all (\<lambda>s. Rho s = ones (length (members s))) (RV_set cap) \<and>
         map name (RV cap) = concat (map members (RV_set cap)) \<and>
         distinct (map name (RV cap))"
proof -
  define lss where "lss = limit_states_of frg"
  define st0 where "st0 = \<lparr>capacity_RV_reg = empty_registry, lsds_RV_reg = empty_registry,
                rv_count = 0, ds_id = 0, frg_rv_set_tags = []\<rparr>"
  have nf: "list_all (\<lambda>ls. map_of frg (''LS'' @ ls, ''Family'') \<noteq> Some (Str ''function'')) lss"
    using assms(3) by (simp add: fragility_only_def lss_def)
  obtain st' where loop: "block_loop PG frg lss [0..<n_blocks] st0 = Inr st'"
    and cap: "cap = capacity_RV_reg st'"
    using assms(1,2) unfolding create_dmg_RVs_def Let_def lss_def st0_def
    by (auto split: if_splits sum.splits)
  note bl = block_loop_fragility[OF loop nf]
  have e: "RV (capacity_RV_reg st0) = []" "RV_set (capacity_RV_reg st0) = []"
    by (simp_all add: st0_def empty_registry_def)
  have names: "map name (RV cap)
                 = concat (map (\<lambda>b. map (rv_tag ''FRG'' PG (b + 1)) lss) [0..<n_blocks])"
    using bl[THEN conjunct1] e cap by simp
  have sets: "RV_set cap =
           (if lss = [] then []
            else map (\<lambda>b. \<lparr>set_name = rv_set_tag PG (b + 1),
                            members = map (rv_tag ''FRG'' PG (b + 1)) lss,
                            Rho = ones (length lss)\<rparr>) [0..<n_blocks])"
    using bl[THEN conjunct2, THEN conjunct1] e cap by simp
  have d: "distinct (map name (RV cap))"
    using bl[THEN conjunct2, THEN conjunct2] e cap by simp
  have rho: "list_all (\<lambda>s. Rho s = ones (length (members s))) (RV_set cap)"
    unfolding sets by (simp add: list_all_iff)
  have mem: "concat (map members (RV_set cap))
               = concat (map (\<lambda>b. map (rv_tag ''FRG'' PG (b + 1)) lss) [0..<n_blocks])"
    unfolding sets by (simp add: comp_def)
  show ?thesis
    using sets rho names mem d unfolding lss_def by simp
qed

theorem create_dmg_RVs_block_sets_witness:
  "\<exists>cap lsds. create_dmg_RVs example_damage_table 2 [''B.10'', ''3'', ''1''] = Inr (cap, lsds) \<and>
     RV_set cap =
       [\<lparr>set_name = ''FRG-B.10-3-1-1_set'',
         members = [''FRG-B.10-3-1-1-1'', ''FRG-B.10-3-1-1-2''], Rho = [[1, 1], [1, 1]]\<rparr>,
        \<lparr>set_name = ''FRG-B.10-3-1-2_set'',
         members = [''FRG-B.10-3-1-2-1'', ''FRG-B.10-3-1-2-2''], Rho = [[1, 1], [1, 1]]\<rparr>] \<and>
     map name (RV cap) = [''FRG-B.10-3-1-1-1'', ''FRG-B.10-3-1-1-2'',
                          ''FRG-B.10-3-1-2-1'', ''FRG-B.10-3-1-2-2'']"
proof -
  define PG where "PG = [''B.10'', ''3'', ''1'']"
  have "\<not> isl (create_dmg_RVs example_damage_table 2 PG)"
    unfolding PG_def by code_simp
  then obtain cap lsds where r: "create_dmg_RVs example_damage_table 2 PG = Inr (cap, lsds)"
    by (cases "create_dmg_RVs example_damage_table 2 PG") auto
  have t: "example_damage_table (PG ! 0) = Some example_frg_params"
    by (simp add: example_damage_table_def PG_def)
  have f: "fragility_only example_frg_params"
    by code_simp
  note th = create_dmg_RVs_block_sets[OF r t f]
  have l: "limit_states_of example_frg_params = [''1'', ''2'']"
    by code_simp
  have tags: "rv_tag ''FRG'' PG (Suc 0) ''1'' = ''FRG-B.10-3-1-1-1''"
             "rv_tag ''FRG'' PG (Suc 0) ''2'' = ''FRG-B.10-3-1-1-2''"
             "rv_tag ''FRG'' PG (Suc (Suc 0)) ''1'' = ''FRG-B.10-3-1-2-1''"
             "rv_tag ''FRG'' PG (Suc (Suc 0)) ''2'' = ''FRG-B.10-3-1-2-2''"
             "rv_set_tag PG (Suc 0) = ''FRG-B.10-3-1-1_set''"
             "rv_set_tag PG (Suc (Suc 0)) = ''FRG-B.10-3-1-2_set''"
    unfolding PG_def by code_simp+
  have u: "[0..<2] = [0, 1]"
    by (simp add: upt_rec)
  have sets: "RV_set cap =
       [\<lparr>set_name = ''FRG-B.10-3-1-1_set'',
         members = [''FRG-B.10-3-1-1-1'', ''FRG-B.10-3-1-1-2''], Rho = [[1, 1], [1, 1]]\<rparr>,
        \<lparr>set_name = ''FRG-B.10-3-1-2_set'',
         members = [''FRG-B.10-3-1-2-1'', ''FRG-B.10-3-1-2-2''], Rho = [[1, 1], [1, 1]]\<rparr>]"
    using th[THEN conjunct1] unfolding l u
    by (simp add: tags ones_def numeral_2_eq_2)
  have names: "map name (RV cap) = [''FRG-B.10-3-1-1-1'', ''FRG-B.10-3-1-1-2'',
                          ''FRG-B.10-3-1-2-1'', ''FRG-B.10-3-1-2-2'']"
    using th[THEN conjunct2, THEN conjunct2, THEN conjunct1] unfolding sets by simp
  show ?thesis
    using r sets names unfolding PG_def
    by - (rule exI[of _ cap], rule exI[of _ lsds], simp)
qed

section \<open>Properties of \_perform\_dmg\_task\<close>

subsection \<open>Cells of a table\<close>

lemma zip_map2_labels:
  "zip ks (map2 f ks row) = map (\<lambda>(k, x). (k, f k x)) (zip ks row)"
proof (induction ks arbitrary: row)
  case Nil
  then show ?case by simp
next
  case (Cons k ks)
  then show ?case by (cases row) simp_all
qed

lemma map_of_map_labels:
  "map_of (map (\<lambda>(k, x). (k, f k x)) kvs) k = map_option (f k) (map_of kvs k)"
  by (induction kvs) auto

lemma map_of_zip_map2:
  "map_of (zip ks (map2 f ks row)) k = map_option (f k) (map_of (zip ks row) k)"
  by (simp only: zip_map2_labels map_of_map_labels)

lemma map_of_zip_None:
  "length ks = length row \<Longrightarrow> map_of (zip ks row) k = None \<longleftrightarrow> k \<notin> set ks"
  using map_fst_zip[of ks row] by (metis map_of_eq_None_iff set_map)

lemma table_row: "table n F \<Longrightarrow> r < length (rows F) \<Longrightarrow> length (rows F ! r) = length (columns F)"
  by (auto simp: table_def dest: wf_frame_row)

lemma table_label: "table n F \<Longrightarrow> k \<in> set (columns F) \<Longrightarrow> length k = n"
  by (auto simp: table_def dest: wf_frame_label)

lemma tableI:
  assumes "\<And>k. k \<in> set (columns F) \<Longrightarrow> length k = n"
    and "\<And>row. row \<in> set (rows F) \<Longrightarrow> length row = length (columns F)"
    and "distinct (columns F)"
  shows "table n F"
  using assms by (simp add: table_def wf_frame_def list_all_iff)

lemma table_rows: "table n F \<Longrightarrow> row \<in> set (rows F) \<Longrightarrow> length row = length (columns F)"
  by (simp add: table_def wf_frame_def list_all_iff)

lemma table_distinct: "table n F \<Longrightarrow> distinct (columns F)"
  by (simp add: table_def)

lemma cell_None_iff:
  assumes "table n F" "r < length (rows F)"
  shows "cell F r k = None \<longleftrightarrow> k \<notin> set (columns F)"
  using table_row[OF assms] by (simp add: cell_def map_of_zip_None)

text \<open>\<^verbatim>\<open>F.loc[mask, cols] = v\<close>, cell by cell.\<close>

lemma loc_assign_rows:
  assumes "length msk = length (rows F)" "r < length (rows F)"
  shows "length (rows (loc_assign msk P v F)) = length (rows F)"
    and "rows (loc_assign msk P v F) ! r =
           (if msk ! r then map2 (\<lambda>k x. if P k then v else x) (columns F) (rows F ! r)
            else rows F ! r)"
  using assms by (simp_all add: loc_assign_def)

lemma loc_assign_table:
  assumes "table n F" "length msk = length (rows F)"
  shows "table n (loc_assign msk P v F)"
proof (rule tableI)
  show "\<And>k. k \<in> set (columns (loc_assign msk P v F)) \<Longrightarrow> length k = n"
    using assms(1) by (simp add: loc_assign_columns table_label)
  show "distinct (columns (loc_assign msk P v F))"
    using assms(1) by (simp add: loc_assign_columns table_distinct)
  fix row assume "row \<in> set (rows (loc_assign msk P v F))"
  then obtain r where r: "r < length (rows (loc_assign msk P v F))"
      and row: "row = rows (loc_assign msk P v F) ! r"
    by (metis in_set_conv_nth)
  have r': "r < length (rows F)" using r assms(2) by (simp add: loc_assign_def)
  have "length (rows F ! r) = length (columns F)" using table_row[OF assms(1) r'] .
  then show "length row = length (columns (loc_assign msk P v F))"
    unfolding row loc_assign_rows(2)[OF assms(2) r'] by (simp add: loc_assign_columns)
qed

lemma loc_assign_cell:
  assumes "table n F" "length msk = length (rows F)" "r < length (rows F)"
  shows "cell (loc_assign msk P v F) r k =
           (if msk ! r \<and> P k \<and> k \<in> set (columns F) then Some v else cell F r k)"
proof -
  have l: "length (columns F) = length (rows F ! r)"
    using table_row[OF assms(1,3)] by simp
  show ?thesis
  proof (cases "msk ! r")
    case False
    then show ?thesis
      by (simp add: cell_def loc_assign_columns loc_assign_rows(2)[OF assms(2,3)])
  next
    case True
    have "cell (loc_assign msk P v F) r k
            = map_option (\<lambda>x. if P k then v else x) (map_of (zip (columns F) (rows F ! r)) k)"
      using True
      by (simp add: cell_def loc_assign_columns loc_assign_rows(2)[OF assms(2,3)] map_of_zip_map2)
    then show ?thesis
      using True map_of_zip_None[OF l, of k]
      by (cases "map_of (zip (columns F) (rows F ! r)) k") (auto simp: cell_def)
  qed
qed

text \<open>A new column, cell by cell.\<close>

lemma add_column_table:
  assumes "table n F" "l \<notin> set (columns F)" "length l = n"
  shows "table n (add_column l v F)"
proof (rule tableI)
  show "\<And>k. k \<in> set (columns (add_column l v F)) \<Longrightarrow> length k = n"
    using assms by (auto simp: add_column_def table_label)
  show "distinct (columns (add_column l v F))"
    using assms by (simp add: add_column_def table_distinct)
  show "\<And>row. row \<in> set (rows (add_column l v F)) \<Longrightarrow> length row = length (columns (add_column l v F))"
    using assms(1) by (auto simp: add_column_def table_rows)
qed

lemma add_column_cell:
  assumes "table n F" "l \<notin> set (columns F)" "r < length (rows F)"
  shows "cell (add_column l v F) r k = (if k = l then Some v else cell F r k)"
proof -
  have len: "length (columns F) = length (rows F ! r)"
    using table_row[OF assms(1,3)] by simp
  have n: "map_of (zip (columns F) (rows F ! r)) l = None"
    using assms(2) map_of_zip_None[OF len] by simp
  have "cell (add_column l v F) r k
          = map_of (zip (columns F) (rows F ! r) @ [(l, v)]) k"
    using assms(3) len by (simp add: cell_def add_column_def)
  also have "\<dots> = (case map_of (zip (columns F) (rows F ! r)) k of
                     None \<Rightarrow> (if k = l then Some v else None) | Some x \<Rightarrow> Some x)"
    by (auto simp: map_add_def split: option.splits)
  finally show ?thesis
    using n by (auto simp: cell_def split: option.splits)
qed

text \<open>\<^verbatim>\<open>F.loc[mask, l] = vals[mask]\<close>, cell by cell.\<close>

lemma loc_assign_values_rows:
  assumes "length msk = length (rows F)" "length vals = length (rows F)" "r < length (rows F)"
  shows "length (rows (loc_assign_values msk l vals F)) = length (rows F)"
    and "rows (loc_assign_values msk l vals F) ! r =
           (if msk ! r then map2 (\<lambda>k x. if k = l then vals ! r else x) (columns F) (rows F ! r)
            else rows F ! r)"
  using assms by (simp_all add: loc_assign_values_def)

lemma loc_assign_values_table:
  assumes "table n F" "length msk = length (rows F)" "length vals = length (rows F)"
  shows "table n (loc_assign_values msk l vals F)"
proof (rule tableI)
  have c: "columns (loc_assign_values msk l vals F) = columns F"
    by (simp add: loc_assign_values_def)
  show "\<And>k. k \<in> set (columns (loc_assign_values msk l vals F)) \<Longrightarrow> length k = n"
    using assms(1) by (simp add: c table_label)
  show "distinct (columns (loc_assign_values msk l vals F))"
    using assms(1) by (simp add: c table_distinct)
  fix row assume "row \<in> set (rows (loc_assign_values msk l vals F))"
  then obtain r where r: "r < length (rows (loc_assign_values msk l vals F))"
      and row: "row = rows (loc_assign_values msk l vals F) ! r"
    by (metis in_set_conv_nth)
  have r': "r < length (rows F)" using r assms(2,3) by (simp add: loc_assign_values_def)
  have "length (rows F ! r) = length (columns F)" using table_row[OF assms(1) r'] .
  then show "length row = length (columns (loc_assign_values msk l vals F))"
    unfolding row loc_assign_values_rows(2)[OF assms(2,3) r'] by (simp add: c)
qed

lemma loc_assign_values_cell:
  assumes "table n F" "length msk = length (rows F)" "length vals = length (rows F)"
    "r < length (rows F)"
  shows "cell (loc_assign_values msk l vals F) r k =
           (if msk ! r \<and> k = l \<and> l \<in> set (columns F) then Some (vals ! r) else cell F r k)"
proof -
  have len: "length (columns F) = length (rows F ! r)"
    using table_row[OF assms(1,4)] by simp
  have c: "columns (loc_assign_values msk l vals F) = columns F"
    by (simp add: loc_assign_values_def)
  show ?thesis
  proof (cases "msk ! r")
    case False
    then show ?thesis
      by (simp add: cell_def c loc_assign_values_rows(2)[OF assms(2,3,4)])
  next
    case True
    have "cell (loc_assign_values msk l vals F) r k
            = map_option (\<lambda>x. if k = l then vals ! r else x) (map_of (zip (columns F) (rows F ! r)) k)"
      using True
      by (simp add: cell_def c loc_assign_values_rows(2)[OF assms(2,3,4)] map_of_zip_map2)
    then show ?thesis
      using True map_of_zip_None[OF len, of k]
      by (cases "map_of (zip (columns F) (rows F ! r)) k") (auto simp: cell_def)
  qed
qed

text \<open>A column read by its label.\<close>

lemma those_Some_nth:
  "those xs = Some ys \<Longrightarrow> length ys = length xs \<and> (\<forall>i < length xs. xs ! i = Some (ys ! i))"
proof (induction xs arbitrary: ys)
  case Nil
  then show ?case by simp
next
  case (Cons x xs)
  then obtain y ys' where y: "x = Some y" "those xs = Some ys'" "ys = y # ys'"
    by (auto split: option.splits)
  then show ?case using Cons.IH[OF y(2)] by (auto simp: nth_Cons')
qed

lemma those_all_Some:
  "(\<And>x. x \<in> set xs \<Longrightarrow> x \<noteq> None) \<Longrightarrow> \<exists>ys. those xs = Some ys"
  by (induction xs) (auto split: option.splits)

lemma getcol_Inr:
  assumes "getcol k F = Inr c" "r < length (rows F)"
  shows "length c = length (rows F)" "cell F r k = Some (c ! r)"
proof -
  have t: "those (map (\<lambda>row. map_of (zip (columns F) row) k) (rows F)) = Some c"
    using assms(1) by (auto simp: getcol_def split: option.splits if_splits)
  show "length c = length (rows F)" using those_Some_nth[OF t] by simp
  show "cell F r k = Some (c ! r)" using those_Some_nth[OF t] assms(2) by (simp add: cell_def)
qed

lemma getcol_total:
  assumes "table n F" "k \<in> set (columns F)"
  shows "\<exists>c. getcol k F = Inr c"
proof -
  have "x \<noteq> None" if x: "x \<in> set (map (\<lambda>row. map_of (zip (columns F) row) k) (rows F))" for x
  proof -
    obtain row where row: "row \<in> set (rows F)" "x = map_of (zip (columns F) row) k"
      using x by auto
    have "length (columns F) = length row" using table_rows[OF assms(1) row(1)] by simp
    then show ?thesis using map_of_zip_None[of "columns F" row k] assms(2) row(2) by simp
  qed
  then obtain c where "those (map (\<lambda>row. map_of (zip (columns F) row) k) (rows F)) = Some c"
    using those_all_Some by blast
  then show ?thesis using assms(2) by (simp add: getcol_def)
qed

lemma getcol_length: "getcol k F = Inr c \<Longrightarrow> length c = length (rows F)"
proof -
  assume "getcol k F = Inr c"
  then have "those (map (\<lambda>row. map_of (zip (columns F) row) k) (rows F)) = Some c"
    by (auto simp: getcol_def split: option.splits if_splits)
  from those_Some_nth[OF this] show ?thesis by simp
qed

lemma loc_assign_length:
  "length msk = length (rows F) \<Longrightarrow> length (rows (loc_assign msk P v F)) = length (rows F)"
  by (simp add: loc_assign_def)

lemma loc_assign_values_length:
  "length msk = length (rows F) \<Longrightarrow> length vals = length (rows F) \<Longrightarrow>
     length (rows (loc_assign_values msk l vals F)) = length (rows F)"
  by (simp add: loc_assign_values_def)

subsection \<open>The quantities of the target components are moved\<close>

lemma move_PG_to_DS_cells:
  assumes T: "table 4 F" and C: "table 3 cmp_qnt"
    and lm: "length msk = length (rows F)" and lc: "length (rows cmp_qnt) = length (rows F)"
    and PG: "PG \<in> set (columns cmp_qnt)" and ex: "\<exists>k\<in>set (columns F). take 3 k = PG"
  shows "\<exists>F'. move_PG_to_DS msk cmp_qnt ds PG F = Inr F' \<and> table 4 F' \<and>
           length (rows F') = length (rows F) \<and>
           set (columns F') = insert (PG @ [ds]) (set (columns F)) \<and>
           (\<forall>r<length (rows F). \<forall>k. cell F' r k =
              (if k = PG @ [ds]
               then (if msk ! r then Some (cell cmp_qnt r PG)
                     else if k \<in> set (columns F) then cell F r k else Some (Some 0))
               else cell F r k))"
proof -
  define l where "l = PG @ [ds]"
  define F1 where "F1 = (if l \<notin> set (columns F) then add_column l (Some 0) F else F)"
  obtain q where q: "getcol PG cmp_qnt = Inr q"
    using getcol_total[OF C PG] by blast
  have len_l: "length l = 4"
    using table_label[OF C PG] by (simp add: l_def)
  have T1: "table 4 F1"
    unfolding F1_def using T add_column_table[OF T _ len_l] by simp
  have n1: "length (rows F1) = length (rows F)"
    by (simp add: F1_def add_column_def)
  have c1: "set (columns F1) = insert l (set (columns F))"
    by (auto simp: F1_def add_column_def)
  have cell1: "cell F1 r k = (if k = l \<and> l \<notin> set (columns F) then Some (Some 0) else cell F r k)"
    if r: "r < length (rows F)" for r k
    using add_column_cell[OF T _ r, of l "Some 0" k] by (auto simp: F1_def)
  have lq: "length (map Some q) = length (rows F1)"
    using getcol_length[OF q] lc n1 by simp
  have lm1: "length msk = length (rows F1)"
    using lm n1 by simp
  define F' where "F' = loc_assign_values msk l (map Some q) F1"
  have res: "move_PG_to_DS msk cmp_qnt ds PG F = Inr F'"
    using ex q by (simp add: move_PG_to_DS_def list_ex_iff F'_def F1_def l_def Let_def)
  have T': "table 4 F'"
    unfolding F'_def by (rule loc_assign_values_table[OF T1 lm1 lq])
  have n': "length (rows F') = length (rows F)"
    unfolding F'_def using loc_assign_values_length[OF lm1 lq] n1 by simp
  have c': "set (columns F') = insert l (set (columns F))"
    using c1 by (simp add: F'_def loc_assign_values_def)
  have cell': "cell F' r k =
              (if k = l
               then (if msk ! r then Some (cell cmp_qnt r PG)
                     else if k \<in> set (columns F) then cell F r k else Some (Some 0))
               else cell F r k)"
    if r: "r < length (rows F)" for r k
  proof -
    have r1: "r < length (rows F1)" using r n1 by simp
    have rc: "r < length (rows cmp_qnt)" using r lc by simp
    have v: "map Some q ! r = cell cmp_qnt r PG"
      using getcol_Inr[OF q rc] r lc by simp
    have "cell F' r k = (if msk ! r \<and> k = l \<and> l \<in> set (columns F1) then Some (map Some q ! r)
                         else cell F1 r k)"
      unfolding F'_def by (rule loc_assign_values_cell[OF T1 lm1 lq r1])
    then show ?thesis
      using cell1[OF r, of k] c1 v cell_None_iff[OF T r, of k] by auto
  qed
  show ?thesis
    using res T' n' c' cell' unfolding l_def by blast
qed

lemma move_PGs_to_DS_cells:
  assumes T: "table 4 F" and C: "table 3 cmp_qnt"
    and lm: "length msk = length (rows F)" and lc: "length (rows cmp_qnt) = length (rows F)"
    and PGs: "set PGs \<subseteq> set (columns cmp_qnt)"
    and ex: "\<forall>PG\<in>set PGs. \<exists>k\<in>set (columns F). take 3 k = PG"
  shows "\<exists>F'. move_PGs_to_DS msk cmp_qnt ds PGs F = Inr F' \<and> table 4 F' \<and>
           length (rows F') = length (rows F) \<and>
           set (columns F') = set (columns F) \<union> (\<lambda>PG. PG @ [ds]) ` set PGs \<and>
           (\<forall>r<length (rows F). \<forall>k. cell F' r k =
              (if k \<in> (\<lambda>PG. PG @ [ds]) ` set PGs
               then (if msk ! r then Some (cell cmp_qnt r (take 3 k))
                     else if k \<in> set (columns F) then cell F r k else Some (Some 0))
               else cell F r k))"
  using T lm lc PGs ex
proof (induction PGs arbitrary: F)
  case Nil
  then show ?case by simp
next
  case (Cons PG PGs)
  have PG: "PG \<in> set (columns cmp_qnt)" using Cons.prems(4) by simp
  have l3: "length PG = 3" using table_label[OF C PG] .
  have ex1: "\<exists>k\<in>set (columns F). take 3 k = PG" using Cons.prems(5) by simp
  define l where "l = PG @ [ds]"
  define B where "B = (\<lambda>PG. PG @ [ds]) ` set PGs"
  from move_PG_to_DS_cells[OF Cons.prems(1) C Cons.prems(2,3) PG ex1, of ds]
  obtain F1 where H1: "move_PG_to_DS msk cmp_qnt ds PG F = Inr F1 \<and> table 4 F1 \<and>
           length (rows F1) = length (rows F) \<and>
           set (columns F1) = insert (PG @ [ds]) (set (columns F)) \<and>
           (\<forall>r<length (rows F). \<forall>k. cell F1 r k =
              (if k = PG @ [ds]
               then (if msk ! r then Some (cell cmp_qnt r PG)
                     else if k \<in> set (columns F) then cell F r k else Some (Some 0))
               else cell F r k))" ..
  note F1 = H1[THEN conjunct1]
  note T1 = H1[THEN conjunct2, THEN conjunct1]
  note n1 = H1[THEN conjunct2, THEN conjunct2, THEN conjunct1]
  have c1: "set (columns F1) = insert l (set (columns F))"
    using H1[THEN conjunct2, THEN conjunct2, THEN conjunct2, THEN conjunct1]
    unfolding l_def .
  have cell1: "cell F1 r k =
              (if k = l
               then (if msk ! r then Some (cell cmp_qnt r (take 3 k))
                     else if k \<in> set (columns F) then cell F r k else Some (Some 0))
               else cell F r k)" if r: "r < length (rows F)" for r k
  proof -
    have "take 3 l = PG" using l3 by (simp add: l_def)
    then show ?thesis
      using H1[THEN conjunct2, THEN conjunct2, THEN conjunct2, THEN conjunct2, rule_format, OF r, of k]
      unfolding l_def[symmetric] by simp
  qed
  have lm1: "length msk = length (rows F1)" using Cons.prems(2) n1 by simp
  have lc1: "length (rows cmp_qnt) = length (rows F1)" using Cons.prems(3) n1 by simp
  have sub: "set PGs \<subseteq> set (columns cmp_qnt)" using Cons.prems(4) by simp
  have exs: "\<forall>PG\<in>set PGs. \<exists>k\<in>set (columns F1). take 3 k = PG"
  proof
    fix P assume "P \<in> set PGs"
    then obtain k where "k \<in> set (columns F)" "take 3 k = P"
      using Cons.prems(5) by auto
    then show "\<exists>k\<in>set (columns F1). take 3 k = P"
      unfolding c1 by blast
  qed
  from Cons.IH[OF T1 lm1 lc1 sub exs]
  obtain F' where H': "move_PGs_to_DS msk cmp_qnt ds PGs F1 = Inr F' \<and> table 4 F' \<and>
           length (rows F') = length (rows F1) \<and>
           set (columns F') = set (columns F1) \<union> (\<lambda>PG. PG @ [ds]) ` set PGs \<and>
           (\<forall>r<length (rows F1). \<forall>k. cell F' r k =
              (if k \<in> (\<lambda>PG. PG @ [ds]) ` set PGs
               then (if msk ! r then Some (cell cmp_qnt r (take 3 k))
                     else if k \<in> set (columns F1) then cell F1 r k else Some (Some 0))
               else cell F1 r k))" ..
  note F' = H'[THEN conjunct1]
  note T' = H'[THEN conjunct2, THEN conjunct1]
  note n' = H'[THEN conjunct2, THEN conjunct2, THEN conjunct1]
  have c': "set (columns F') = set (columns F1) \<union> B"
    using H'[THEN conjunct2, THEN conjunct2, THEN conjunct2, THEN conjunct1]
    unfolding B_def .
  have res: "move_PGs_to_DS msk cmp_qnt ds (PG # PGs) F = Inr F'"
    using F1 F' by simp
  have img: "(\<lambda>PG. PG @ [ds]) ` set (PG # PGs) = insert l B"
    by (simp add: l_def B_def)
  have cols: "set (columns F') = set (columns F) \<union> insert l B"
    unfolding c' c1 by blast
  have cells: "cell F' r k =
              (if k \<in> insert l B
               then (if msk ! r then Some (cell cmp_qnt r (take 3 k))
                     else if k \<in> set (columns F) then cell F r k else Some (Some 0))
               else cell F r k)"
    if r: "r < length (rows F)" for r k
  proof -
    have r1: "r < length (rows F1)" using r n1 by simp
    have a: "cell F' r k =
              (if k \<in> B
               then (if msk ! r then Some (cell cmp_qnt r (take 3 k))
                     else if k \<in> set (columns F1) then cell F1 r k else Some (Some 0))
               else cell F1 r k)"
      using H'[THEN conjunct2, THEN conjunct2, THEN conjunct2, THEN conjunct2, rule_format, OF r1, of k]
      unfolding B_def .
    show ?thesis
      unfolding a cell1[OF r] c1
      by (cases "k \<in> B"; cases "k = l"; cases "msk ! r"; cases "k \<in> set (columns F)"; simp)
  qed
  show ?case
    unfolding img
  proof (intro exI[of _ F'] conjI allI impI)
    show "move_PGs_to_DS msk cmp_qnt ds (PG # PGs) F = Inr F'" by (rule res)
    show "table 4 F'" by (rule T')
    show "length (rows F') = length (rows F)" using n' n1 by simp
    show "set (columns F') = set (columns F) \<union> insert l B" by (rule cols)
    show "cell F' r k =
              (if k \<in> insert l B
               then (if msk ! r then Some (cell cmp_qnt r (take 3 k))
                     else if k \<in> set (columns F) then cell F r k else Some (Some 0))
               else cell F r k)" if "r < length (rows F)" for r k
      by (rule cells[OF that])
  qed
qed

lemma move_cmps_to_DS_cells:
  assumes T: "table 4 F" and C: "table 3 cmp_qnt"
    and lm: "length msk = length (rows F)" and lc: "length (rows cmp_qnt) = length (rows F)"
    and known: "\<forall>c\<in>set cmps. \<exists>PG\<in>set (columns cmp_qnt). hd PG = c"
    and ex: "\<forall>PG\<in>set (columns cmp_qnt). \<exists>k\<in>set (columns F). take 3 k = PG"
  shows "\<exists>F'. move_cmps_to_DS msk cmp_qnt ds cmps F = Inr F' \<and> table 4 F' \<and>
           length (rows F') = length (rows F) \<and>
           set (columns F') = set (columns F) \<union>
              (\<lambda>PG. PG @ [ds]) ` {PG \<in> set (columns cmp_qnt). hd PG \<in> set cmps} \<and>
           (\<forall>r<length (rows F). \<forall>k. cell F' r k =
              (if k \<in> (\<lambda>PG. PG @ [ds]) ` {PG \<in> set (columns cmp_qnt). hd PG \<in> set cmps}
               then (if msk ! r then Some (cell cmp_qnt r (take 3 k))
                     else if k \<in> set (columns F) then cell F r k else Some (Some 0))
               else cell F r k))"
  using T lm lc known ex
proof (induction cmps arbitrary: F)
  case Nil
  then show ?case by simp
next
  case (Cons c cmps)
  define PGs where "PGs = filter (\<lambda>k. hd k = c) (columns cmp_qnt)"
  define A where "A = (\<lambda>PG. PG @ [ds]) ` set PGs"
  define B where "B = (\<lambda>PG. PG @ [ds]) ` {PG \<in> set (columns cmp_qnt). hd PG \<in> set cmps}"
  have sub: "set PGs \<subseteq> set (columns cmp_qnt)" by (auto simp: PGs_def)
  have ex1: "\<forall>PG\<in>set PGs. \<exists>k\<in>set (columns F). take 3 k = PG"
    using Cons.prems(5) sub by blast
  have sP: "set PGs = {PG \<in> set (columns cmp_qnt). hd PG = c}" by (auto simp: PGs_def)
  from move_PGs_to_DS_cells[OF Cons.prems(1) C Cons.prems(2,3) sub ex1, of ds]
  obtain F1 where H1: "move_PGs_to_DS msk cmp_qnt ds PGs F = Inr F1 \<and> table 4 F1 \<and>
           length (rows F1) = length (rows F) \<and>
           set (columns F1) = set (columns F) \<union> (\<lambda>PG. PG @ [ds]) ` set PGs \<and>
           (\<forall>r<length (rows F). \<forall>k. cell F1 r k =
              (if k \<in> (\<lambda>PG. PG @ [ds]) ` set PGs
               then (if msk ! r then Some (cell cmp_qnt r (take 3 k))
                     else if k \<in> set (columns F) then cell F r k else Some (Some 0))
               else cell F r k))" ..
  note F1 = H1[THEN conjunct1]
  note T1 = H1[THEN conjunct2, THEN conjunct1]
  note n1 = H1[THEN conjunct2, THEN conjunct2, THEN conjunct1]
  have c1: "set (columns F1) = set (columns F) \<union> A"
    using H1[THEN conjunct2, THEN conjunct2, THEN conjunct2, THEN conjunct1]
    unfolding A_def .
  have lm1: "length msk = length (rows F1)" using Cons.prems(2) n1 by simp
  have lc1: "length (rows cmp_qnt) = length (rows F1)" using Cons.prems(3) n1 by simp
  have known1: "\<forall>c\<in>set cmps. \<exists>PG\<in>set (columns cmp_qnt). hd PG = c"
    using Cons.prems(4) by simp
  have exs: "\<forall>PG\<in>set (columns cmp_qnt). \<exists>k\<in>set (columns F1). take 3 k = PG"
  proof
    fix P assume "P \<in> set (columns cmp_qnt)"
    then obtain k where "k \<in> set (columns F)" "take 3 k = P"
      using Cons.prems(5) by auto
    then show "\<exists>k\<in>set (columns F1). take 3 k = P"
      unfolding c1 by blast
  qed
  from Cons.IH[OF T1 lm1 lc1 known1 exs]
  obtain F' where H': "move_cmps_to_DS msk cmp_qnt ds cmps F1 = Inr F' \<and> table 4 F' \<and>
           length (rows F') = length (rows F1) \<and>
           set (columns F') = set (columns F1) \<union>
              (\<lambda>PG. PG @ [ds]) ` {PG \<in> set (columns cmp_qnt). hd PG \<in> set cmps} \<and>
           (\<forall>r<length (rows F1). \<forall>k. cell F' r k =
              (if k \<in> (\<lambda>PG. PG @ [ds]) ` {PG \<in> set (columns cmp_qnt). hd PG \<in> set cmps}
               then (if msk ! r then Some (cell cmp_qnt r (take 3 k))
                     else if k \<in> set (columns F1) then cell F1 r k else Some (Some 0))
               else cell F1 r k))" ..
  note F' = H'[THEN conjunct1]
  note T' = H'[THEN conjunct2, THEN conjunct1]
  note n' = H'[THEN conjunct2, THEN conjunct2, THEN conjunct1]
  have c': "set (columns F') = set (columns F1) \<union> B"
    using H'[THEN conjunct2, THEN conjunct2, THEN conjunct2, THEN conjunct1]
    unfolding B_def .
  have kn: "list_ex (\<lambda>k. hd k = c) (columns cmp_qnt)"
    using Cons.prems(4) by (simp add: list_ex_iff)
  have res: "move_cmps_to_DS msk cmp_qnt ds (c # cmps) F = Inr F'"
    using kn F1 F' by (simp add: PGs_def)
  have AB: "(\<lambda>PG. PG @ [ds]) ` {PG \<in> set (columns cmp_qnt). hd PG \<in> set (c # cmps)} = A \<union> B"
    unfolding A_def B_def sP by auto
  have cols: "set (columns F') = set (columns F) \<union> (A \<union> B)"
    unfolding c' c1 by blast
  have cells: "cell F' r k =
              (if k \<in> A \<union> B
               then (if msk ! r then Some (cell cmp_qnt r (take 3 k))
                     else if k \<in> set (columns F) then cell F r k else Some (Some 0))
               else cell F r k)"
    if r: "r < length (rows F)" for r k
  proof -
    have r1: "r < length (rows F1)" using r n1 by simp
    have a: "cell F' r k =
              (if k \<in> B
               then (if msk ! r then Some (cell cmp_qnt r (take 3 k))
                     else if k \<in> set (columns F1) then cell F1 r k else Some (Some 0))
               else cell F1 r k)"
      using H'[THEN conjunct2, THEN conjunct2, THEN conjunct2, THEN conjunct2, rule_format, OF r1, of k]
      unfolding B_def .
    have b: "cell F1 r k =
              (if k \<in> A
               then (if msk ! r then Some (cell cmp_qnt r (take 3 k))
                     else if k \<in> set (columns F) then cell F r k else Some (Some 0))
               else cell F r k)"
      using H1[THEN conjunct2, THEN conjunct2, THEN conjunct2, THEN conjunct2, rule_format, OF r, of k]
      unfolding A_def .
    show ?thesis
      unfolding a b c1
      by (cases "k \<in> B"; cases "k \<in> A"; cases "msk ! r"; cases "k \<in> set (columns F)"; simp)
  qed
  show ?case
    unfolding AB
  proof (intro exI[of _ F'] conjI allI impI)
    show "move_cmps_to_DS msk cmp_qnt ds (c # cmps) F = Inr F'" by (rule res)
    show "table 4 F'" by (rule T')
    show "length (rows F') = length (rows F)" using n' n1 by simp
    show "set (columns F') = set (columns F) \<union> (A \<union> B)" by (rule cols)
    show "cell F' r k =
              (if k \<in> A \<union> B
               then (if msk ! r then Some (cell cmp_qnt r (take 3 k))
                     else if k \<in> set (columns F) then cell F r k else Some (Some 0))
               else cell F r k)" if "r < length (rows F)" for r k
      by (rule cells[OF that])
  qed
qed

(*PROOFS-END*)

end
